theory Spec2Isabelle
  imports Complex_Main
begin

section \<open>Clusters, graphs and the manifold of pyclam\<close>

text \<open>
  A shallow embedding of \<^verbatim>\<open>pyclam/manifold.py\<close>. Distances are Python floats; they are
  modelled as real numbers, so rounding, infinities and NaN are outside the model.
  Every exception the source can raise is a value of \<open>error\<close>.
\<close>

datatype error =
  ValueError | TypeError | ZeroDivisionError | AssertionError | KeyError | IndexError | AttributeError

text \<open>
  \<^verbatim>\<open>class Cluster\<close>. The fields \<open>name\<close>, \<open>argpoints\<close> and \<open>children\<close> are the attributes of
  the object; \<open>children\<close> is \<open>None\<close> until \<^verbatim>\<open>partition\<close> has run on the cluster.
  \<open>argsamples\<close>, \<open>argmedoid\<close>, \<open>argradius\<close> and \<open>radius\<close> are the entries of \<^verbatim>\<open>self.cache\<close>
  that the properties of the same names fill on first use and return from then on.
  Python collects the children in a set; the list fixes one iteration order.
\<close>

datatype cluster = Cluster
  (name: string)
  (argpoints: "nat list")
  (children: "cluster list option")
  (argsamples: "nat list")
  (argmedoid: nat)
  (argradius: nat)
  (radius: real)

text \<open>\<^verbatim>\<open>Cluster.depth\<close>: \<^verbatim>\<open>self.name.count('0')\<close>.\<close>

definition depth :: "cluster \<Rightarrow> nat" where
  "depth c = count_list (name c) (CHR ''0'')"

text \<open>
  Truth value of \<^verbatim>\<open>cluster.children\<close>: \<open>None\<close> and the empty collection are both false.
\<close>

definition has_children :: "cluster \<Rightarrow> bool" where
  "has_children c = (case children c of None \<Rightarrow> False | Some cs \<Rightarrow> cs \<noteq> [])"

definition children_of :: "cluster \<Rightarrow> cluster list" where
  "children_of c = (case children c of None \<Rightarrow> [] | Some cs \<Rightarrow> cs)"

subsection \<open>Dictionaries\<close>

text \<open>
  \<^verbatim>\<open>Cluster.__eq__\<close>: two clusters are equal when they have the same name and the same set
  of points; \<^verbatim>\<open>Cluster.__hash__\<close> is the hash of the name. The docstring of \<^verbatim>\<open>__hash__\<close> asks to
  use it with clusters of one tree only. There the name of a cluster is its place in the tree,
  so two clusters of one tree are equal exactly when they are the same cluster.
\<close>

definition cluster_eq :: "cluster \<Rightarrow> cluster \<Rightarrow> bool" where
  "cluster_eq a b = (name a = name b \<and> set (argpoints a) = set (argpoints b))"

text \<open>
  A Python \<^verbatim>\<open>dict\<close> is an association list in insertion order with distinct keys.
  \<open>dict_set\<close> is \<^verbatim>\<open>d[k] = v\<close>: the value of a key that is present is replaced in place,
  a new key goes to the end. \<open>dict_update\<close> is \<^verbatim>\<open>d.update(items)\<close> and \<open>dict_of\<close> builds
  a dictionary from the items of a comprehension, in the order they are produced.
  These functions compare keys as values. For clusters that is the comparison of the
  source on the clusters of one tree, where \<open>cluster_eq\<close> holds of a cluster and itself
  only (\<open>unique_names\<close> below); the functions that take clusters from their caller,
  \<open>Graph\<close> and \<open>replace_clusters\<close>, compare them with \<open>cluster_eq\<close>.
\<close>

fun dict_set :: "'k \<Rightarrow> 'v \<Rightarrow> ('k \<times> 'v) list \<Rightarrow> ('k \<times> 'v) list" where
  "dict_set k v [] = [(k, v)]"
| "dict_set k v ((k', v') # d) = (if k = k' then (k, v) # d else (k', v') # dict_set k v d)"

definition dict_update :: "('k \<times> 'v) list \<Rightarrow> ('k \<times> 'v) list \<Rightarrow> ('k \<times> 'v) list" where
  "dict_update d items = fold (\<lambda>(k, v) acc. dict_set k v acc) items d"

definition dict_of :: "('k \<times> 'v) list \<Rightarrow> ('k \<times> 'v) list" where
  "dict_of items = dict_update [] items"

subsection \<open>Edges and graphs\<close>

text \<open>
  \<^verbatim>\<open>Edge\<close> is the named tuple (neighbor, distance, probability) of \<^verbatim>\<open>pyclam.types\<close>;
  the probability is \<open>None\<close> until the transition probabilities are computed.
  A Python set of edges is a list without repetitions, in some iteration order.
\<close>

type_synonym edge = "cluster \<times> real \<times> real option"

text \<open>
  \<^verbatim>\<open>class Graph\<close>: \<open>edges\<close> is the dictionary \<^verbatim>\<open>self.edges\<close> from the clusters of the graph to
  their sets of edges (\<open>None\<close> before the edges are built); the other fields are the
  entries of \<^verbatim>\<open>self.cache\<close> the code of this development reads.
\<close>

record graph =
  edges :: "(cluster \<times> edge list option) list"
  subsumed_clusters :: "cluster list option"
  walkable_clusters :: "cluster list option"
  subsumed_edges :: "(cluster \<times> edge list) list option"
  walkable_edges :: "(cluster \<times> edge list) list option"

text \<open>
  \<^verbatim>\<open>Graph(*clusters)\<close>: the dictionary \<^verbatim>\<open>{cluster: None for cluster in clusters}\<close> and an empty
  cache. \<open>key_add\<close> is the insertion of a key into the keys of a dictionary or of a
  cluster into a set: a cluster equal to one that is there already is not added.
\<close>

definition key_add :: "cluster \<Rightarrow> cluster list \<Rightarrow> cluster list" where
  "key_add c ks = (if list_ex (cluster_eq c) ks then ks else ks @ [c])"

definition Graph :: "cluster list \<Rightarrow> graph" where
  "Graph cs = \<lparr> edges = map (\<lambda>c. (c, None)) (fold key_add cs []),
      subsumed_clusters = None, walkable_clusters = None,
      subsumed_edges = None, walkable_edges = None \<rparr>"

text \<open>\<^verbatim>\<open>Graph.clusters\<close>: the keys of \<^verbatim>\<open>self.edges\<close>; \<^verbatim>\<open>Graph.cardinality\<close>: their number.\<close>

definition clusters :: "graph \<Rightarrow> cluster list" where
  "clusters g = map fst (edges g)"

definition cardinality :: "graph \<Rightarrow> nat" where
  "cardinality g = length (edges g)"

subsection \<open>The manifold\<close>

text \<open>
  \<^verbatim>\<open>class Manifold\<close>. \<open>data\<close> is the dataset, read by row number, and \<open>metric\<close> the distance
  function on rows that \<^verbatim>\<open>cdist\<close> applies; a query point is a row of its own.
  \<open>mroot\<close> is \<^verbatim>\<open>self.root\<close> and \<open>mgraph\<close> is \<^verbatim>\<open>self.graph\<close>.
  \<open>candidates\<close> holds the attribute \<^verbatim>\<open>candidates\<close> of every cluster object of the tree,
  keyed by the name of the cluster: it is the one attribute that graph construction
  writes on clusters it reaches through the tree.
\<close>

record 'p manifold =
  data :: "nat \<Rightarrow> 'p"
  metric :: "'p \<Rightarrow> 'p \<Rightarrow> real"
  mroot :: cluster
  layers :: "graph list"
  mgraph :: graph
  candidates :: "string \<Rightarrow> (cluster \<times> real) list option"

text \<open>\<^verbatim>\<open>Cluster.distance_from\<close> on one row: the distance from the medoid of the cluster.\<close>

definition distance_from :: "'p manifold \<Rightarrow> cluster \<Rightarrow> 'p \<Rightarrow> real" where
  "distance_from m c x = metric m (data m (argmedoid c)) x"

text \<open>\<^verbatim>\<open>Cluster.overlaps\<close>.\<close>

definition overlaps :: "'p manifold \<Rightarrow> cluster \<Rightarrow> 'p \<Rightarrow> real \<Rightarrow> bool" where
  "overlaps m c point r = (distance_from m c point \<le> radius c + r)"

subsection \<open>Tree search\<close>

text \<open>
  The loop of \<^verbatim>\<open>Cluster._tree_search\<close>, with the number of iterations that are left.
  It returns \<open>results\<close> and \<open>candidates\<close> as they are when the loop is left, by
  exhaustion or by one of its two \<^verbatim>\<open>break\<close>s.
\<close>

fun tree_search_loop ::
  "'p manifold \<Rightarrow> 'p \<Rightarrow> real \<Rightarrow> nat \<Rightarrow> (cluster \<times> real) list \<Rightarrow>
   (cluster \<times> real) list \<Rightarrow> (cluster \<times> real) list \<times> (cluster \<times> real) list" where
  "tree_search_loop m point r 0 results cands = (results, cands)"
| "tree_search_loop m point r (Suc n) results cands =
    (let results' = dict_update results (filter (\<lambda>(c, d). \<not> has_children c) cands);
         cands' = dict_of (filter (\<lambda>(c, d). has_children c) cands);
         childs = concat (map (\<lambda>(c, d). children_of c) cands')
     in if childs = [] then (results', cands')
        else
          let distances = map (\<lambda>child. metric m point (data m (argmedoid child))) childs;
              radii = map (\<lambda>child. r + radius child) childs;
              cands'' = dict_of (map (\<lambda>(c, d, r'). (c, d))
                          (filter (\<lambda>(c, d, r'). d \<le> r') (zip childs (zip distances radii))))
          in if cands'' = [] then (results', cands'')
             else tree_search_loop m point r n results' cands'')"

text \<open>\<^verbatim>\<open>Cluster._tree_search\<close>, with its three assertions.\<close>

definition tree_search_inner ::
  "'p manifold \<Rightarrow> cluster \<Rightarrow> 'p \<Rightarrow> real \<Rightarrow> int \<Rightarrow> error + (cluster \<times> real) list" where
  "tree_search_inner m c point r dpth =
    (let distance = distance_from m c point in
     if \<not> distance \<le> r + radius c then Inl AssertionError
     else if \<not> int (depth c) < dpth then Inl AssertionError
     else
       let (results, cands) = tree_search_loop m point r (nat (dpth - int (depth c))) [] [(c, distance)];
           results' = dict_update results cands
       in if list_all (\<lambda>(x, d). dpth \<ge> int (depth x)) results' then Inr results'
          else Inl AssertionError)"

text \<open>\<^verbatim>\<open>Cluster.tree_search\<close>.\<close>

definition tree_search ::
  "'p manifold \<Rightarrow> cluster \<Rightarrow> 'p \<Rightarrow> real \<Rightarrow> int \<Rightarrow> error + (cluster \<times> real) list" where
  "tree_search m c point r dpth0 =
    (let dpth = (if dpth0 = - 1 then int (length (layers m)) else dpth0) in
     if dpth < int (depth c) then Inl ValueError
     else if int (depth c) = dpth then Inr [(c, distance_from m c point)]
     else if overlaps m c point r then tree_search_inner m c point r dpth
     else Inr [])"

subsection \<open>Range search and nearest neighbours\<close>

definition BATCH_SIZE :: nat where
  "BATCH_SIZE = 10000"

text \<open>
  The slices \<^verbatim>\<open>xs[i:i + n]\<close> for \<^verbatim>\<open>i in range(0, len(xs), n)\<close>, in order.
\<close>

fun batches :: "nat \<Rightarrow> 'a list \<Rightarrow> 'a list list" where
  "batches n xs = (if n = 0 \<or> xs = [] then [] else take n xs # batches n (drop n xs))"

declare batches.simps [simp del]

text \<open>
  The calls \<^verbatim>\<open>c.tree_search(point, radius, depth)\<close> that \<^verbatim>\<open>find_clusters\<close> makes for the
  clusters of the first layer, one after the other; their items in the order produced.
\<close>

fun tree_search_all ::
  "'p manifold \<Rightarrow> cluster list \<Rightarrow> 'p \<Rightarrow> real \<Rightarrow> int \<Rightarrow> error + (cluster \<times> real) list" where
  "tree_search_all m [] point r dpth = Inr []"
| "tree_search_all m (c # cs) point r dpth =
    (case tree_search m c point r dpth of
       Inl e \<Rightarrow> Inl e
     | Inr items \<Rightarrow>
        (case tree_search_all m cs point r dpth of
           Inl e \<Rightarrow> Inl e
         | Inr rest \<Rightarrow> Inr (items @ rest)))"

text \<open>\<^verbatim>\<open>Manifold.find_clusters\<close>.\<close>

definition find_clusters ::
  "'p manifold \<Rightarrow> 'p \<Rightarrow> real \<Rightarrow> int \<Rightarrow> error + (cluster \<times> real) list" where
  "find_clusters m point r dpth =
    (case layers m of
       [] \<Rightarrow> Inl IndexError
     | g0 # _ \<Rightarrow>
        (case tree_search_all m (clusters g0) point r dpth of
           Inl e \<Rightarrow> Inl e
         | Inr items \<Rightarrow> Inr (dict_of items)))"

text \<open>
  The loop of \<^verbatim>\<open>Manifold.find_points\<close> over the batches of candidate points.
\<close>

fun find_points_loop ::
  "'p manifold \<Rightarrow> 'p \<Rightarrow> real \<Rightarrow> nat list list \<Rightarrow> (nat \<times> real) list \<Rightarrow> (nat \<times> real) list" where
  "find_points_loop m point r [] results = results"
| "find_points_loop m point r (batch # bs) results =
    (let distances = map (\<lambda>p. metric m point (data m p)) batch
     in find_points_loop m point r bs
          (dict_update results (dict_of (filter (\<lambda>(p, d). d \<le> r) (zip batch distances)))))"

text \<open>
  \<^verbatim>\<open>Manifold.find_points\<close>; \<^verbatim>\<open>sorted(..., key=itemgetter(1))\<close> is a stable sort by distance.
\<close>

definition find_points ::
  "'p manifold \<Rightarrow> 'p \<Rightarrow> real \<Rightarrow> error + (nat \<times> real) list" where
  "find_points m point r =
    (case find_clusters m point r (int (length (layers m))) of
       Inl e \<Rightarrow> Inl e
     | Inr found \<Rightarrow>
        (let cands = concat (map (\<lambda>(c, d). argpoints c) found);
             results = find_points_loop m point r (batches BATCH_SIZE cands) []
         in Inr (sort_key snd results)))"

text \<open>
  The slice \<^verbatim>\<open>xs[:k]\<close> for an integer \<open>k\<close>: a negative \<open>k\<close> counts from the end.
\<close>

definition py_take :: "int \<Rightarrow> 'a list \<Rightarrow> 'a list" where
  "py_take k xs = (if 0 \<le> k then take (nat k) xs else take (length xs - nat (- k)) xs)"

text \<open>
  The \<^verbatim>\<open>while\<close> loop of \<^verbatim>\<open>Manifold.find_knn\<close>. Nothing bounds the number of its
  iterations, so the loop is a partial function: \<open>None\<close> is a loop that never ends.
\<close>

partial_function (option) find_knn_loop ::
  "'p manifold \<Rightarrow> 'p \<Rightarrow> int \<Rightarrow> real \<Rightarrow> (nat \<times> real) list \<Rightarrow>
   (error + (nat \<times> real) list) option" where
  "find_knn_loop m point k r results =
    (if int (length results) < k
     then (case find_points m point (r * 2) of
             Inl e \<Rightarrow> Some (Inl e)
           | Inr results' \<Rightarrow> find_knn_loop m point k (r * 2) results')
     else Some (Inr results))"

text \<open>
  \<^verbatim>\<open>Manifold.find_knn\<close>. The mean of the radii of an empty last layer is NaN in numpy and
  is outside the model; a layer made by \<^verbatim>\<open>Graph(root)\<close> or by \<^verbatim>\<open>build_tree\<close> is not empty.
\<close>

definition find_knn ::
  "'p manifold \<Rightarrow> 'p \<Rightarrow> int \<Rightarrow> (error + (nat \<times> real) list) option" where
  "find_knn m point k =
    (if layers m = [] then Some (Inl IndexError)
     else
       let radii = map radius (clusters (last (layers m)));
           r = max (sum_list radii / real (length radii)) (1 / 10 ^ 16)
       in (case find_points m point r of
             Inl e \<Rightarrow> Some (Inl e)
           | Inr results \<Rightarrow>
              (case find_knn_loop m point k r results of
                 None \<Rightarrow> None
               | Some (Inl e) \<Rightarrow> Some (Inl e)
               | Some (Inr results') \<Rightarrow> Some (Inr (py_take k (sort_key snd results'))))))"

subsection \<open>Partitioning a cluster\<close>

text \<open>
  \<^verbatim>\<open>Manifold.distance\<close> on two row numbers.
\<close>

definition distance :: "'p manifold \<Rightarrow> nat \<Rightarrow> nat \<Rightarrow> real" where
  "distance m i j = metric m (data m i) (data m j)"

text \<open>
  \<^verbatim>\<open>np.argmax\<close> and \<^verbatim>\<open>np.argmin\<close> on a row of distances: the first position of the
  largest (smallest) entry. Both are called on rows that are not empty.
\<close>

fun argmax_from :: "nat \<Rightarrow> real \<Rightarrow> nat \<Rightarrow> real list \<Rightarrow> nat" where
  "argmax_from best bv i [] = best"
| "argmax_from best bv i (x # xs) =
    (if bv < x then argmax_from i x (Suc i) xs else argmax_from best bv (Suc i) xs)"

definition argmax :: "real list \<Rightarrow> nat" where
  "argmax xs = (case xs of [] \<Rightarrow> 0 | x # rest \<Rightarrow> argmax_from 0 x 1 rest)"



text \<open>\<^verbatim>\<open>Cluster._find_poles\<close>, with its two assertions.\<close>

definition find_poles :: "'p manifold \<Rightarrow> cluster \<Rightarrow> error + nat list" where
  "find_poles m c =
    (if \<not> 1 < length (argsamples c) then Inl AssertionError
     else
       let poles =
             (if 2 < length (argsamples c)
              then [argradius c,
                    argsamples c ! argmax (map (distance m (argradius c)) (argsamples c))]
              else argsamples c)
       in if length (remdups poles) = length poles then Inr poles else Inl AssertionError)"



text \<open>
  A freshly made \<^verbatim>\<open>Cluster(manifold, argpoints, name)\<close>. Its cache is empty; what the
  properties will put there depends on the data, the metric and, for more than
  \<^verbatim>\<open>SUBSAMPLE_LIMIT\<close> points, on a random sample, so the cache entries a new cluster
  comes to hold are a parameter \<open>geometry\<close> of the model, given its name and points.
\<close>

type_synonym geometry = "string \<Rightarrow> nat list \<Rightarrow> nat list \<times> nat \<times> nat \<times> real"

definition new_cluster :: "geometry \<Rightarrow> nat list \<Rightarrow> string \<Rightarrow> cluster" where
  "new_cluster geom pts nm =
    (case geom nm pts of (samples, medoid, far, rad) \<Rightarrow> Cluster nm pts None samples medoid far rad)"


subsection \<open>Ancestry\<close>

text \<open>\<^verbatim>\<open>str.split('0')\<close>: the pieces of a name between its zeros.\<close>

fun split_on :: "char \<Rightarrow> string \<Rightarrow> string list" where
  "split_on sep [] = [[]]"
| "split_on sep (x # xs) =
    (let rest = split_on sep xs
     in if x = sep then [] # rest else (x # hd rest) # tl rest)"

text \<open>
  The names \<^verbatim>\<open>ancestry\<close> builds from the pieces: each is the one before it, a zero and
  the next piece. The first argument is the last name built so far.
\<close>

fun ancestor_names :: "string \<Rightarrow> string list \<Rightarrow> string list" where
  "ancestor_names prev [] = []"
| "ancestor_names prev (piece # pieces) =
    (prev @ ''0'' @ piece) # ancestor_names (prev @ ''0'' @ piece) pieces"

text \<open>
  The loop of \<^verbatim>\<open>Manifold.ancestry\<close> over the names of the ancestors. A name that no
  child bears is passed over; the loop is left when the last cluster of the lineage
  has no children.
\<close>

fun lineage_loop :: "cluster list \<Rightarrow> string list \<Rightarrow> cluster list" where
  "lineage_loop lineage [] = lineage"
| "lineage_loop lineage (ancestor # rest) =
    (if has_children (last lineage)
     then (case find (\<lambda>child. name child = ancestor) (children_of (last lineage)) of
             Some child \<Rightarrow> lineage_loop (lineage @ [child]) rest
           | None \<Rightarrow> lineage_loop lineage rest)
     else lineage)"

text \<open>
  \<^verbatim>\<open>Manifold.ancestry\<close> for the name of a cluster; \<^verbatim>\<open>Manifold.depth\<close> is
  \<^verbatim>\<open>len(self.layers) - 1\<close>.
\<close>

definition ancestry :: "'p manifold \<Rightarrow> string \<Rightarrow> error + cluster list" where
  "ancestry m nm =
    (if int (count_list nm (CHR ''0'')) > int (length (layers m)) - 1 then Inl ValueError
     else
       let lineage = (if 0 < length nm
                      then lineage_loop [mroot m] (ancestor_names [] (tl (split_on (CHR ''0'') nm)))
                      else [mroot m])
       in if nm \<noteq> name (last lineage) then Inl ValueError else Inr lineage)"

text \<open>\<^verbatim>\<open>Manifold.select\<close>.\<close>

definition select :: "'p manifold \<Rightarrow> string \<Rightarrow> error + cluster" where
  "select m nm = (case ancestry m nm of Inl e \<Rightarrow> Inl e | Inr lineage \<Rightarrow> Inr (last lineage))"

subsection \<open>Candidates and neighbours\<close>

text \<open>
  A method that changes the objects it works on returns the exception it raised, if
  any, together with the objects as they are when it returns or raises.

  The loop of \<^verbatim>\<open>Graph._find_candidates\<close> over the depths that are left, with the current
  value of the local variable \<^verbatim>\<open>radius\<close>. Reading \<^verbatim>\<open>ancestry[depth + 1]\<close> past the end
  of the lineage raises \<^verbatim>\<open>IndexError\<close>; iterating \<^verbatim>\<open>None\<close> (the candidates of the parent
  or the children of one of them) raises \<^verbatim>\<open>TypeError\<close>.
  \<open>working_set\<close> is the keys of the local dictionary \<^verbatim>\<open>candidates\<close> of the loop: the
  candidates of the parent and, of those at the depth of the parent, the children.
\<close>

definition working_set :: "(cluster \<times> real) list \<Rightarrow> nat \<Rightarrow> cluster list" where
  "working_set pc dp =
    map fst (dict_update (dict_of (map (\<lambda>(c, d). (c, 0 :: real)) pc))
               (concat (map (\<lambda>(c, d). map (\<lambda>ch. (ch, 0))
                  (filter (\<lambda>ch. depth c = dp) (children_of c))) pc)))"

fun find_candidates_loop ::
  "'p manifold \<Rightarrow> cluster list \<Rightarrow> nat list \<Rightarrow> real \<Rightarrow> error option \<times> 'p manifold" where
  "find_candidates_loop m anc [] rad = (None, m)"
| "find_candidates_loop m anc (dp # dps) rad =
    (if length anc \<le> Suc dp then (Some IndexError, m)
     else
       let child = anc ! Suc dp;
           parent = anc ! dp;
           rad' = (if 0 < radius child then radius child else rad)
       in (case candidates m (name child) of
             Some _ \<Rightarrow> find_candidates_loop m anc dps rad'
           | None \<Rightarrow>
              (case candidates m (name parent) of
                 None \<Rightarrow> (Some TypeError, m)
               | Some pc \<Rightarrow>
                  if list_ex (\<lambda>(c, d). children c = None) pc then (Some TypeError, m)
                  else
                    let keys = working_set pc dp;
                        distances = map (\<lambda>c. distance m (argmedoid child) (argmedoid c)) keys;
                        new = (if 0 < length keys
                               then dict_of (filter (\<lambda>(c, d). d \<le> radius c + rad' * 4)
                                               (zip keys distances))
                               else [])
                    in find_candidates_loop
                         (m\<lparr>candidates := (candidates m)(name child \<mapsto> new)\<rparr>) anc dps rad')))"

text \<open>\<^verbatim>\<open>Graph._find_candidates\<close>.\<close>

definition find_candidates :: "'p manifold \<Rightarrow> cluster \<Rightarrow> error option \<times> 'p manifold" where
  "find_candidates m c =
    (case ancestry m (name c) of
       Inl e \<Rightarrow> (Some e, m)
     | Inr anc \<Rightarrow> find_candidates_loop m anc [0..<depth c] (radius (mroot m)))"

text \<open>
  Two views of the local variable \<^verbatim>\<open>radius\<close> of \<^verbatim>\<open>_find_candidates\<close>. \<open>radius_after\<close> is its
  value after the loop has run through the depths \<open>dps\<close>, starting from \<open>rad\<close>: at every
  depth the radius of \<^verbatim>\<open>ancestry[depth + 1]\<close> is adopted if it is positive.
  \<open>path_radius\<close> is the radius of the last cluster of positive radius on a path, and
  \<open>rad\<close> if the path has none.
\<close>

definition radius_after :: "cluster list \<Rightarrow> nat list \<Rightarrow> real \<Rightarrow> real" where
  "radius_after anc dps rad =
     fold (\<lambda>dp r. if 0 < radius (anc ! Suc dp) then radius (anc ! Suc dp) else r) dps rad"

definition path_radius :: "real \<Rightarrow> cluster list \<Rightarrow> real" where
  "path_radius rad path =
     (case filter (\<lambda>a. 0 < radius a) (rev path) of [] \<Rightarrow> rad | a # _ \<Rightarrow> radius a)"

text \<open>
  The radius as the specification words it, for comparison with \<open>path_radius\<close>: the
  largest positive radius among the clusters of a path (0 if none is positive).
\<close>

definition largest_positive_radius :: "cluster list \<Rightarrow> real" where
  "largest_positive_radius path = fold max (filter (\<lambda>r. 0 < r) (map radius path)) 0"

text \<open>
  \<^verbatim>\<open>Graph._find_neighbors\<close>. Reading the items of candidates that are still \<open>None\<close>
  raises \<^verbatim>\<open>AttributeError\<close>.
\<close>

definition find_neighbors ::
  "'p manifold \<Rightarrow> graph \<Rightarrow> cluster \<Rightarrow> error option \<times> 'p manifold \<times> graph" where
  "find_neighbors m g c =
    (case (if candidates m (name c) = None then find_candidates m c else (None, m)) of
       (Some e, m') \<Rightarrow> (Some e, m', g)
     | (None, m') \<Rightarrow>
        (case candidates m' (name c) of
           None \<Rightarrow> (Some AttributeError, m', g)
         | Some cs \<Rightarrow>
            (None, m',
             g\<lparr>edges := dict_set c
                  (Some (map (\<lambda>(x, d). (x, d, None))
                     (filter (\<lambda>(x, d). x \<in> set (clusters g) \<and> d \<le> radius c + radius x) cs)))
                  (edges g)\<rparr>)))"

text \<open>The first comprehension of \<^verbatim>\<open>build_edges\<close>: \<^verbatim>\<open>_find_neighbors\<close> for every cluster.\<close>

fun find_neighbors_all ::
  "'p manifold \<Rightarrow> graph \<Rightarrow> cluster list \<Rightarrow> error option \<times> 'p manifold \<times> graph" where
  "find_neighbors_all m g [] = (None, m, g)"
| "find_neighbors_all m g (c # cs) =
    (case find_neighbors m g c of
       (Some e, m', g') \<Rightarrow> (Some e, m', g')
     | (None, m', g') \<Rightarrow> find_neighbors_all m' g' cs)"

subsection \<open>Building the edges\<close>

text \<open>\<^verbatim>\<open>set.add\<close> on a set kept as a list.\<close>

definition set_add :: "'a \<Rightarrow> 'a list \<Rightarrow> 'a list" where
  "set_add x xs = (if x \<in> set xs then xs else xs @ [x])"

text \<open>
  The handshake of \<^verbatim>\<open>build_edges\<close>. The inner loop runs over the edges of one cluster:
  \<^verbatim>\<open>self.edges[neighbor].add(Edge(cluster, distance, None))\<close>. Looking up a neighbour
  that is no key raises \<^verbatim>\<open>KeyError\<close>, adding to \<open>None\<close> raises \<^verbatim>\<open>AttributeError\<close> and
  iterating \<open>None\<close> raises \<^verbatim>\<open>TypeError\<close>. While the edges of a cluster are iterated the
  set they come from does not grow: every edge has probability \<open>None\<close> at this point, so
  adding the reverse of a self-edge adds the edge itself.
\<close>

fun add_reverse_edges ::
  "cluster \<Rightarrow> edge list \<Rightarrow> (cluster \<times> edge list option) list \<Rightarrow>
   error option \<times> (cluster \<times> edge list option) list" where
  "add_reverse_edges c [] E = (None, E)"
| "add_reverse_edges c ((n, d, p) # es) E =
    (case map_of E n of
       None \<Rightarrow> (Some KeyError, E)
     | Some None \<Rightarrow> (Some AttributeError, E)
     | Some (Some ns) \<Rightarrow> add_reverse_edges c es (dict_set n (Some (set_add (c, d, None) ns)) E))"

fun handshake ::
  "cluster list \<Rightarrow> (cluster \<times> edge list option) list \<Rightarrow>
   error option \<times> (cluster \<times> edge list option) list" where
  "handshake [] E = (None, E)"
| "handshake (c # cs) E =
    (case map_of E c of
       Some (Some es) \<Rightarrow>
        (case add_reverse_edges c es E of
           (Some e, E') \<Rightarrow> (Some e, E')
         | (None, E') \<Rightarrow> handshake cs E')
     | _ \<Rightarrow> (Some TypeError, E))"

text \<open>
  The third comprehension of \<^verbatim>\<open>build_edges\<close>: the edge \<^verbatim>\<open>(cluster, 0., None)\<close> is removed
  from the edges of every cluster that has it.
\<close>

fun remove_self_edges ::
  "cluster list \<Rightarrow> (cluster \<times> edge list option) list \<Rightarrow>
   error option \<times> (cluster \<times> edge list option) list" where
  "remove_self_edges [] E = (None, E)"
| "remove_self_edges (c # cs) E =
    (case map_of E c of
       Some (Some es) \<Rightarrow>
        remove_self_edges cs
          (if (c, 0, None) \<in> set es then dict_set c (Some (removeAll (c, 0, None) es)) E else E)
     | _ \<Rightarrow> (Some TypeError, E))"

text \<open>
  \<^verbatim>\<open>Graph.split_walkable_vs_subsumed\<close>. Its log message reads \<^verbatim>\<open>self.depth\<close>, the largest
  depth of a cluster, which raises \<^verbatim>\<open>ValueError\<close> on a graph without clusters.
\<close>

definition edges_of :: "graph \<Rightarrow> cluster \<Rightarrow> edge list" where
  "edges_of g c = (case map_of (edges g) c of Some (Some es) \<Rightarrow> es | _ \<Rightarrow> [])"

text \<open>
  The four comprehensions of \<^verbatim>\<open>split_walkable_vs_subsumed\<close>: the clusters that have an
  edge to a neighbour that contains them, the other clusters, and for a cluster its
  edges to subsumed neighbours and its edges to the others, with probability \<open>None\<close>.
\<close>

definition subsumed_of :: "graph \<Rightarrow> cluster list" where
  "subsumed_of g =
     filter (\<lambda>c. list_ex (\<lambda>(n, d, p). radius n \<ge> d + radius c) (edges_of g c)) (clusters g)"

definition walkable_of :: "graph \<Rightarrow> cluster list" where
  "walkable_of g = filter (\<lambda>c. c \<notin> set (subsumed_of g)) (clusters g)"

definition subsumed_edges_of :: "graph \<Rightarrow> cluster \<Rightarrow> edge list" where
  "subsumed_edges_of g c =
     remdups (map (\<lambda>(n, d, p). (n, d, None))
       (filter (\<lambda>(n, d, p). n \<in> set (subsumed_of g)) (edges_of g c)))"

definition walkable_edges_of :: "graph \<Rightarrow> cluster \<Rightarrow> edge list" where
  "walkable_edges_of g c =
     remdups (map (\<lambda>(n, d, p). (n, d, None))
       (filter (\<lambda>(n, d, p). n \<notin> set (subsumed_of g)) (edges_of g c)))"

definition split_walkable_vs_subsumed :: "graph \<Rightarrow> error option \<times> graph" where
  "split_walkable_vs_subsumed g =
    (if clusters g = [] then (Some ValueError, g)
     else if list_ex (\<lambda>(c, es). es = None) (edges g) then (Some TypeError, g)
     else (None, g\<lparr>subsumed_clusters := Some (subsumed_of g),
                    walkable_clusters := Some (walkable_of g),
                    subsumed_edges := Some (map (\<lambda>c. (c, subsumed_edges_of g c)) (clusters g)),
                    walkable_edges := Some (map (\<lambda>c. (c, walkable_edges_of g c))
                                              (filter (\<lambda>c. c \<notin> set (subsumed_of g)) (clusters g)))\<rparr>))"

text \<open>
  The body of the loop of \<^verbatim>\<open>Graph.recompute_transition_probabilities\<close> for the walkable
  edges of one cluster, which are not empty. A division by zero leaves the edges as
  they were; the assertion is checked after the new edges are stored.
\<close>

definition transition_probabilities :: "edge list \<Rightarrow> error option \<times> edge list" where
  "transition_probabilities es =
    (if list_ex (\<lambda>(n, d, p). d = 0) es then (Some ZeroDivisionError, es)
     else
       let factor = sum_list (map (\<lambda>(n, d, p). 1 / d) es)
       in if list_ex (\<lambda>(n, d, p). d * factor = 0) es then (Some ZeroDivisionError, es)
          else
            let es' = remdups (map (\<lambda>(n, d, p). (n, d, Some (1 / (d * factor)))) es);
                total = sum_list (map (\<lambda>(n, d, p). the p) es')
            in if \<bar>total - 1\<bar> \<le> 1 / 10 ^ 6 then (None, es') else (Some AssertionError, es'))"

fun recompute_loop ::
  "(cluster \<times> edge list) list \<Rightarrow> error option \<times> (cluster \<times> edge list) list" where
  "recompute_loop [] = (None, [])"
| "recompute_loop ((c, es) # rest) =
    (if 0 < length es
     then (case transition_probabilities es of
             (Some e, es') \<Rightarrow> (Some e, (c, es') # rest)
           | (None, es') \<Rightarrow>
              (case recompute_loop rest of (e, rest') \<Rightarrow> (e, (c, es') # rest')))
     else (case recompute_loop rest of (e, rest') \<Rightarrow> (e, (c, es) # rest')))"

text \<open>
  \<^verbatim>\<open>Graph.recompute_transition_probabilities\<close>. Its log message reads \<^verbatim>\<open>self.depth\<close> too,
  and \<^verbatim>\<open>self.cache['walkable_edges']\<close> raises \<^verbatim>\<open>KeyError\<close> when the cache has no such entry.
\<close>

definition recompute_transition_probabilities :: "graph \<Rightarrow> error option \<times> graph" where
  "recompute_transition_probabilities g =
    (if clusters g = [] then (Some ValueError, g)
     else (case walkable_edges g of
             None \<Rightarrow> (Some KeyError, g)
           | Some w_edges \<Rightarrow>
              (case recompute_loop w_edges of
                 (e, w_edges') \<Rightarrow> (e, g\<lparr>walkable_edges := Some w_edges'\<rparr>))))"

text \<open>\<^verbatim>\<open>Graph.build_edges\<close>.\<close>

definition build_edges :: "'p manifold \<Rightarrow> graph \<Rightarrow> error option \<times> 'p manifold \<times> graph" where
  "build_edges m g =
    (case find_neighbors_all m g (clusters g) of
       (Some e, m1, g1) \<Rightarrow> (Some e, m1, g1)
     | (None, m1, g1) \<Rightarrow>
        (case handshake (clusters g1) (edges g1) of
           (Some e, E2) \<Rightarrow> (Some e, m1, g1\<lparr>edges := E2\<rparr>)
         | (None, E2) \<Rightarrow>
            (case remove_self_edges (clusters g1) E2 of
               (Some e, E3) \<Rightarrow> (Some e, m1, g1\<lparr>edges := E3\<rparr>)
             | (None, E3) \<Rightarrow>
                (case split_walkable_vs_subsumed (g1\<lparr>edges := E3\<rparr>) of
                   (Some e, g4) \<Rightarrow> (Some e, m1, g4)
                 | (None, g4) \<Rightarrow>
                    (case recompute_transition_probabilities g4 of
                       (e, g5) \<Rightarrow> (e, m1, g5))))))"

text \<open>
  \<^verbatim>\<open>Manifold.build_graph\<close> without graph criteria: the candidates of the root are set and
  the edges of \<^verbatim>\<open>self.graph\<close> are built. The depths of its log message raise
  \<^verbatim>\<open>ValueError\<close> on a graph without clusters.
\<close>

definition build_graph :: "'p manifold \<Rightarrow> error option \<times> 'p manifold" where
  "build_graph m =
    (if clusters (mgraph m) = [] then (Some ValueError, m)
     else
       let m0 = m\<lparr>candidates := (candidates m)(name (mroot m) \<mapsto> [(mroot m, 0)])\<rparr>
       in (case build_edges m0 (mgraph m0) of
             (e, m1, g1) \<Rightarrow> (e, m1\<lparr>mgraph := g1\<rparr>)))"

subsection \<open>Manifolds as the code makes them\<close>

text \<open>The clusters of the tree below a cluster, the cluster itself first.\<close>

fun subtree :: "cluster \<Rightarrow> cluster list" where
  "subtree (Cluster nm pts ch smp med far rad) =
     Cluster nm pts ch smp med far rad #
       (case ch of None \<Rightarrow> [] | Some cs \<Rightarrow> concat (map subtree cs))"

text \<open>
  What holds of every manifold the code builds and what the theorems on graphs assume.
  \<^item> \<open>unique_names\<close>: the name of a cluster is its place in the tree, so no two clusters
    of the tree have the same name.
  \<^item> \<open>medoids_at_zero\<close>: the distance of a medoid from itself is 0, as the metric is
    required to give for every point.
  \<^item> \<open>candidates_sound\<close>: the candidates that clusters of the tree hold are clusters of the
    tree with their distances from the medoid of the holder. \<^verbatim>\<open>build_graph\<close> sets the
    candidates of the root to that effect and \<^verbatim>\<open>_find_candidates\<close> computes all others.
  \<^item> \<open>graph_of_tree\<close>: the clusters of a graph are clusters of the tree.
\<close>

definition unique_names :: "'p manifold \<Rightarrow> bool" where
  "unique_names m =
     list_all (\<lambda>x. list_all (\<lambda>y. name x \<noteq> name y \<or> x = y) (subtree (mroot m)))
       (subtree (mroot m))"

definition medoids_at_zero :: "'p manifold \<Rightarrow> bool" where
  "medoids_at_zero m =
     list_all (\<lambda>c. distance m (argmedoid c) (argmedoid c) = 0) (subtree (mroot m))"

definition candidates_sound :: "'p manifold \<Rightarrow> bool" where
  "candidates_sound m =
     list_all (\<lambda>t. case candidates m (name t) of
                      None \<Rightarrow> True
                    | Some cs \<Rightarrow>
                       list_all (\<lambda>(x, d). x \<in> set (subtree (mroot m))
                                   \<and> d = distance m (argmedoid t) (argmedoid x)) cs)
       (subtree (mroot m))"

definition graph_of_tree :: "'p manifold \<Rightarrow> graph \<Rightarrow> bool" where
  "graph_of_tree m g = list_all (\<lambda>c. c \<in> set (subtree (mroot m))) (clusters g)"

subsection \<open>Notions for the proofs\<close>

text \<open>
  \<open>same_world\<close>: two states of a manifold that differ at most in the candidates of
  their clusters. \<open>edge_rel\<close>: the edges of a dictionary of edges as a relation, the
  source first. \<open>built_like\<close>: two dictionaries of edges with the same keys, the same
  of which have no edges yet. \<open>good_edges\<close>: what \<^verbatim>\<open>_find_neighbors\<close> makes the edges of a
  cluster \<open>c\<close> of a graph with the clusters \<open>cs\<close>. \<open>edges_ok\<close>: every cluster has its
  set of edges, and the edges are between different clusters of the graph, have no
  probability, join overlapping clusters and come with their reverse.
\<close>

definition same_world :: "'p manifold \<Rightarrow> 'p manifold \<Rightarrow> bool" where
  "same_world m m' = (data m' = data m \<and> metric m' = metric m \<and> mroot m' = mroot m
      \<and> layers m' = layers m \<and> mgraph m' = mgraph m)"

definition edge_rel ::
  "(cluster \<times> edge list option) list \<Rightarrow> (cluster \<times> cluster \<times> real \<times> real option) set" where
  "edge_rel E = {(a, b, d, p). \<exists>es. map_of E a = Some (Some es) \<and> (b, d, p) \<in> set es}"

definition built_like ::
  "(cluster \<times> edge list option) list \<Rightarrow> (cluster \<times> edge list option) list \<Rightarrow> bool" where
  "built_like E E' = (map fst E' = map fst E \<and>
      (\<forall>k. (map_of E' k = None \<longleftrightarrow> map_of E k = None)
         \<and> (map_of E' k = Some None \<longleftrightarrow> map_of E k = Some None)))"

definition good_edges :: "cluster list \<Rightarrow> cluster \<Rightarrow> edge list \<Rightarrow> bool" where
  "good_edges cs c es =
     list_all (\<lambda>(x, d, p). x \<in> set cs \<and> p = None \<and> d \<le> radius c + radius x
                 \<and> (if x = c then d = 0 else True)) es"

definition edges_ok :: "(cluster \<times> edge list option) list \<Rightarrow> bool" where
  "edges_ok E = ((\<forall>c\<in>fst ` set E. \<exists>es. map_of E c = Some (Some es)) \<and>
     (\<forall>a b d p. (a, b, d, p) \<in> edge_rel E \<longrightarrow>
        p = None \<and> a \<in> fst ` set E \<and> b \<in> fst ` set E \<and> a \<noteq> b
        \<and> d \<le> radius a + radius b \<and> (b, a, d, None) \<in> edge_rel E))"

subsection \<open>Queries on a graph\<close>

text \<open>\<^verbatim>\<open>any((edges is None for edges in self.edges.values()))\<close>.\<close>

definition edges_missing :: "graph \<Rightarrow> bool" where
  "edges_missing g = list_ex (\<lambda>(c, es). es = None) (edges g)"

text \<open>
  The properties \<^verbatim>\<open>subsumed_clusters\<close>, \<^verbatim>\<open>walkable_clusters\<close>, \<^verbatim>\<open>subsumed_edges\<close> and
  \<^verbatim>\<open>walkable_edges\<close> of a graph: the edges are built when the cache has no entry, and
  the entry is returned.
\<close>

definition cached ::
  "(graph \<Rightarrow> 'a option) \<Rightarrow> 'p manifold \<Rightarrow> graph \<Rightarrow> (error + 'a) \<times> 'p manifold \<times> graph" where
  "cached entry m g =
    (case entry g of
       Some v \<Rightarrow> (Inr v, m, g)
     | None \<Rightarrow>
        (case build_edges m g of
           (Some e, m1, g1) \<Rightarrow> (Inl e, m1, g1)
         | (None, m1, g1) \<Rightarrow>
            (case entry g1 of
               Some v \<Rightarrow> (Inr v, m1, g1)
             | None \<Rightarrow> (Inl KeyError, m1, g1))))"

text \<open>\<^verbatim>\<open>Graph.neighbors\<close>.\<close>

definition neighbors ::
  "'p manifold \<Rightarrow> graph \<Rightarrow> cluster \<Rightarrow> string \<Rightarrow> (error + cluster list) \<times> 'p manifold \<times> graph" where
  "neighbors m g c choice =
    (case map_of (edges g) c of
       None \<Rightarrow> (Inl KeyError, m, g)
     | Some eo \<Rightarrow>
        (case (if eo = None then build_edges m g else (None, m, g)) of
           (Some e, m1, g1) \<Rightarrow> (Inl e, m1, g1)
         | (None, m1, g1) \<Rightarrow>
            if choice = ''all'' then
              (case map_of (edges g1) c of
                 Some (Some es) \<Rightarrow> (Inr (map fst es), m1, g1)
               | Some None \<Rightarrow> (Inl TypeError, m1, g1)
               | None \<Rightarrow> (Inl KeyError, m1, g1))
            else if choice = ''walkable'' then
              (case cached walkable_edges m1 g1 of
                 (Inl e, m2, g2) \<Rightarrow> (Inl e, m2, g2)
               | (Inr w_edges, m2, g2) \<Rightarrow>
                  (case map_of w_edges c of
                     None \<Rightarrow> (Inl KeyError, m2, g2)
                   | Some es \<Rightarrow> (Inr (map fst es), m2, g2)))
            else if choice = ''subsumed'' then
              (case cached subsumed_edges m1 g1 of
                 (Inl e, m2, g2) \<Rightarrow> (Inl e, m2, g2)
               | (Inr s_edges, m2, g2) \<Rightarrow>
                  (case map_of s_edges c of
                     None \<Rightarrow> (Inl KeyError, m2, g2)
                   | Some es \<Rightarrow> (Inr (map fst es), m2, g2)))
            else (Inl ValueError, m1, g1)))"

text \<open>\<^verbatim>\<open>Graph.probabilities\<close>.\<close>

definition probabilities ::
  "'p manifold \<Rightarrow> graph \<Rightarrow> cluster \<Rightarrow> (error + real option list) \<times> 'p manifold \<times> graph" where
  "probabilities m g c =
    (case map_of (edges g) c of
       None \<Rightarrow> (Inl KeyError, m, g)
     | Some eo \<Rightarrow>
        (case (if eo = None then build_edges m g else (None, m, g)) of
           (Some e, m1, g1) \<Rightarrow> (Inl e, m1, g1)
         | (None, m1, g1) \<Rightarrow>
            (case cached subsumed_clusters m1 g1 of
               (Inl e, m2, g2) \<Rightarrow> (Inl e, m2, g2)
             | (Inr subsumed, m2, g2) \<Rightarrow>
                if c \<in> set subsumed then (Inl ValueError, m2, g2)
                else
                  (case cached walkable_edges m2 g2 of
                     (Inl e, m3, g3) \<Rightarrow> (Inl e, m3, g3)
                   | (Inr w_edges, m3, g3) \<Rightarrow>
                      (case map_of w_edges c of
                         None \<Rightarrow> (Inl KeyError, m3, g3)
                       | Some es \<Rightarrow>
                          if list_ex (\<lambda>(n, d, p). p = None) es then
                            (case recompute_transition_probabilities g3 of
                               (Some e, g4) \<Rightarrow> (Inl e, m3, g4)
                             | (None, g4) \<Rightarrow>
                                (case cached walkable_edges m3 g4 of
                                   (Inl e, m5, g5) \<Rightarrow> (Inl e, m5, g5)
                                 | (Inr w_edges', m5, g5) \<Rightarrow>
                                    (case map_of w_edges' c of
                                       None \<Rightarrow> (Inl KeyError, m5, g5)
                                     | Some es' \<Rightarrow> (Inr (map (\<lambda>(n, d, p). p) es'), m5, g5))))
                          else (Inr (map (\<lambda>(n, d, p). p) es), m3, g3))))))"

text \<open>
  The neighbours of the clusters of a list, one call of \<^verbatim>\<open>self.neighbors\<close> after the
  other, as the comprehensions of the traversals make them.
\<close>

fun neighbors_of_all ::
  "'p manifold \<Rightarrow> graph \<Rightarrow> cluster list \<Rightarrow> string \<Rightarrow> (error + cluster list) \<times> 'p manifold \<times> graph" where
  "neighbors_of_all m g [] choice = (Inr [], m, g)"
| "neighbors_of_all m g (c # cs) choice =
    (case neighbors m g c choice of
       (Inl e, m1, g1) \<Rightarrow> (Inl e, m1, g1)
     | (Inr ns, m1, g1) \<Rightarrow>
        (case neighbors_of_all m1 g1 cs choice of
           (Inl e, m2, g2) \<Rightarrow> (Inl e, m2, g2)
         | (Inr rest, m2, g2) \<Rightarrow> (Inr (ns @ rest), m2, g2)))"

text \<open>\<^verbatim>\<open>set.update\<close> on a set kept as a list.\<close>

definition set_update :: "'a list \<Rightarrow> 'a list \<Rightarrow> 'a list" where
  "set_update xs ys = fold set_add ys xs"

subsection \<open>Replacing clusters\<close>

text \<open>
  \<^verbatim>\<open>Graph.replace_clusters\<close>; \<open>removals\<close> and \<open>additions\<close> are sets of clusters, which the
  caller makes. \<open>is_in\<close> is \<^verbatim>\<open>cluster in clusters\<close>. The new clusters are the clusters of
  the graph without those equal to a removal, and then the additions;
  \<^verbatim>\<open>self.cache.clear()\<close> empties every entry of the cache, and the new dictionary of edges
  is made as in \<^verbatim>\<open>Graph(*clusters)\<close>.
\<close>

definition is_in :: "cluster \<Rightarrow> cluster list \<Rightarrow> bool" where
  "is_in c cs = list_ex (cluster_eq c) cs"

text \<open>
  What \<^verbatim>\<open>Cluster.__eq__\<close> compares. The keys of a dictionary and the members of a set of
  clusters differ in it.
\<close>

definition cluster_key :: "cluster \<Rightarrow> string \<times> nat set" where
  "cluster_key c = (name c, set (argpoints c))"


subsection \<open>Traversals\<close>

text \<open>
  The \<^verbatim>\<open>while\<close> loops of the three traversals are partial functions: \<open>None\<close> is a loop
  that never ends.

  The loop of \<^verbatim>\<open>Graph.traverse\<close>, on the sets \<open>visited\<close> and \<open>frontier\<close>.
\<close>

partial_function (option) traverse_loop ::
  "'p manifold \<Rightarrow> graph \<Rightarrow> cluster list \<Rightarrow> cluster list \<Rightarrow>
   ((error + cluster list) \<times> 'p manifold \<times> graph) option" where
  "traverse_loop m g visited frontier =
    (if frontier = [] then Some (Inr visited, m, g)
     else
       (case neighbors_of_all m g frontier ''walkable'' of
          (Inl e, m1, g1) \<Rightarrow> Some (Inl e, m1, g1)
        | (Inr ns, m1, g1) \<Rightarrow>
           traverse_loop m1 g1 (set_update visited frontier)
             (remdups (filter (\<lambda>n. n \<notin> set (set_update visited frontier)) ns))))"

text \<open>
  The loop of \<^verbatim>\<open>Graph.bft\<close>: \<^verbatim>\<open>queue.popleft()\<close> takes the first cluster of the queue.
\<close>

partial_function (option) bft_loop ::
  "'p manifold \<Rightarrow> graph \<Rightarrow> cluster list \<Rightarrow> cluster list \<Rightarrow>
   ((error + cluster list) \<times> 'p manifold \<times> graph) option" where
  "bft_loop m g visited queue =
    (case queue of
       [] \<Rightarrow> Some (Inr visited, m, g)
     | c # rest \<Rightarrow>
        if c \<in> set visited then bft_loop m g visited rest
        else
          (case neighbors m g c ''walkable'' of
             (Inl e, m1, g1) \<Rightarrow> Some (Inl e, m1, g1)
           | (Inr ns, m1, g1) \<Rightarrow>
              bft_loop m1 g1 (set_add c visited)
                (rest @ filter (\<lambda>n. n \<notin> set (set_add c visited)) ns)))"

text \<open>
  The loop of \<^verbatim>\<open>Graph.dft\<close>: \<^verbatim>\<open>stack.pop()\<close> takes the last cluster of the stack.
\<close>

partial_function (option) dft_loop ::
  "'p manifold \<Rightarrow> graph \<Rightarrow> cluster list \<Rightarrow> cluster list \<Rightarrow>
   ((error + cluster list) \<times> 'p manifold \<times> graph) option" where
  "dft_loop m g visited stack =
    (if stack = [] then Some (Inr visited, m, g)
     else
       if last stack \<in> set visited then dft_loop m g visited (butlast stack)
       else
         (case neighbors m g (last stack) ''walkable'' of
            (Inl e, m1, g1) \<Rightarrow> Some (Inl e, m1, g1)
          | (Inr ns, m1, g1) \<Rightarrow>
             dft_loop m1 g1 (set_add (last stack) visited)
               (butlast stack @ filter (\<lambda>n. n \<notin> set (set_add (last stack) visited)) ns)))"

text \<open>
  What the traversals do before their loops: the edges are built if some are missing,
  and a start among the subsumed clusters raises \<^verbatim>\<open>ValueError\<close>.
\<close>

definition traversal_start ::
  "'p manifold \<Rightarrow> graph \<Rightarrow> cluster \<Rightarrow> error option \<times> 'p manifold \<times> graph" where
  "traversal_start m g start =
    (case (if edges_missing g then build_edges m g else (None, m, g)) of
       (Some e, m1, g1) \<Rightarrow> (Some e, m1, g1)
     | (None, m1, g1) \<Rightarrow>
        (case cached subsumed_clusters m1 g1 of
           (Inl e, m2, g2) \<Rightarrow> (Some e, m2, g2)
         | (Inr subsumed, m2, g2) \<Rightarrow>
            if start \<in> set subsumed then (Some ValueError, m2, g2) else (None, m2, g2)))"

text \<open>
  The last step of \<^verbatim>\<open>Graph.traverse\<close>: the neighbours along the subsumed edges of the
  visited clusters join the visited set.
\<close>

fun subsumed_edge_neighbors ::
  "(cluster \<times> edge list) list \<Rightarrow> cluster list \<Rightarrow> error + cluster list" where
  "subsumed_edge_neighbors s_edges [] = Inr []"
| "subsumed_edge_neighbors s_edges (c # cs) =
    (case map_of s_edges c of
       None \<Rightarrow> Inl KeyError
     | Some es \<Rightarrow>
        (case subsumed_edge_neighbors s_edges cs of
           Inl e \<Rightarrow> Inl e
         | Inr rest \<Rightarrow> Inr (map fst es @ rest)))"

text \<open>\<^verbatim>\<open>Graph.traverse\<close>.\<close>

definition traverse ::
  "'p manifold \<Rightarrow> graph \<Rightarrow> cluster \<Rightarrow> ((error + cluster list) \<times> 'p manifold \<times> graph) option" where
  "traverse m g start =
    (case traversal_start m g start of
       (Some e, m1, g1) \<Rightarrow> Some (Inl e, m1, g1)
     | (None, m1, g1) \<Rightarrow>
        (case traverse_loop m1 g1 [] [start] of
           None \<Rightarrow> None
         | Some (Inl e, m2, g2) \<Rightarrow> Some (Inl e, m2, g2)
         | Some (Inr visited, m2, g2) \<Rightarrow>
            (case cached subsumed_edges m2 g2 of
               (Inl e, m3, g3) \<Rightarrow> Some (Inl e, m3, g3)
             | (Inr s_edges, m3, g3) \<Rightarrow>
                (case subsumed_edge_neighbors s_edges visited of
                   Inl e \<Rightarrow> Some (Inl e, m3, g3)
                 | Inr ns \<Rightarrow> Some (Inr (set_update visited (remdups ns)), m3, g3)))))"

text \<open>
  The last step of \<^verbatim>\<open>bft\<close> and \<^verbatim>\<open>dft\<close>: the subsumed neighbours of the visited
  clusters join the visited set.
\<close>

definition subsumed_visits ::
  "'p manifold \<Rightarrow> graph \<Rightarrow> cluster list \<Rightarrow> (error + cluster list) \<times> 'p manifold \<times> graph" where
  "subsumed_visits m g visited =
    (case neighbors_of_all m g visited ''subsumed'' of
       (Inl e, m1, g1) \<Rightarrow> (Inl e, m1, g1)
     | (Inr ns, m1, g1) \<Rightarrow> (Inr (set_update visited (remdups ns)), m1, g1))"

text \<open>\<^verbatim>\<open>Graph.bft\<close>.\<close>

definition bft ::
  "'p manifold \<Rightarrow> graph \<Rightarrow> cluster \<Rightarrow> ((error + cluster list) \<times> 'p manifold \<times> graph) option" where
  "bft m g start =
    (case traversal_start m g start of
       (Some e, m1, g1) \<Rightarrow> Some (Inl e, m1, g1)
     | (None, m1, g1) \<Rightarrow>
        (case bft_loop m1 g1 [] [start] of
           None \<Rightarrow> None
         | Some (Inl e, m2, g2) \<Rightarrow> Some (Inl e, m2, g2)
         | Some (Inr visited, m2, g2) \<Rightarrow> Some (subsumed_visits m2 g2 visited)))"

text \<open>\<^verbatim>\<open>Graph.dft\<close>.\<close>

definition dft ::
  "'p manifold \<Rightarrow> graph \<Rightarrow> cluster \<Rightarrow> ((error + cluster list) \<times> 'p manifold \<times> graph) option" where
  "dft m g start =
    (case traversal_start m g start of
       (Some e, m1, g1) \<Rightarrow> Some (Inl e, m1, g1)
     | (None, m1, g1) \<Rightarrow>
        (case dft_loop m1 g1 [] [start] of
           None \<Rightarrow> None
         | Some (Inl e, m2, g2) \<Rightarrow> Some (Inl e, m2, g2)
         | Some (Inr visited, m2, g2) \<Rightarrow> Some (subsumed_visits m2 g2 visited)))"

subsection \<open>Random walks\<close>

text \<open>
  The argument \<^verbatim>\<open>starts\<close> of \<^verbatim>\<open>random_walks\<close> is a name, a cluster, a list of names or a
  list of clusters.
\<close>

datatype starts = StartName string | StartCluster cluster
  | StartNames "string list" | StartClusters "cluster list"

text \<open>
  \<^verbatim>\<open>np.random.choice(a, p)\<close> draws one of the clusters \<open>a\<close> with the probabilities \<open>p\<close>.
  The draw is a parameter of the model: a function of the state of the generator that
  returns the cluster drawn and the next state.
\<close>

type_synonym 'r chooser = "'r \<Rightarrow> cluster list \<Rightarrow> real option list \<Rightarrow> cluster \<times> 'r"

text \<open>\<^verbatim>\<open>[self.manifold.select(cluster) for cluster in starts]\<close>.\<close>

fun select_all :: "'p manifold \<Rightarrow> string list \<Rightarrow> error + cluster list" where
  "select_all m [] = Inr []"
| "select_all m (nm # nms) =
    (case select m nm of
       Inl e \<Rightarrow> Inl e
     | Inr c \<Rightarrow> (case select_all m nms of Inl e \<Rightarrow> Inl e | Inr cs \<Rightarrow> Inr (c # cs)))"

text \<open>The two \<^verbatim>\<open>if\<close>s of \<^verbatim>\<open>random_walks\<close> that turn \<^verbatim>\<open>starts\<close> into a list of clusters.\<close>

definition resolve_starts :: "'p manifold \<Rightarrow> starts \<Rightarrow> error + cluster list" where
  "resolve_starts m s =
    (case s of
       StartCluster c \<Rightarrow> Inr [c]
     | StartName nm \<Rightarrow> select_all m [nm]
     | StartClusters cs \<Rightarrow> (if cs = [] then Inl IndexError else Inr cs)
     | StartNames nms \<Rightarrow> (if nms = [] then Inl IndexError else select_all m nms))"

text \<open>
  One step of all walks: every walk moves to a neighbour drawn with the transition
  probabilities of the cluster it is at.
\<close>

fun walk_step ::
  "'r chooser \<Rightarrow> 'p manifold \<Rightarrow> graph \<Rightarrow> 'r \<Rightarrow> cluster list \<Rightarrow>
   (error + cluster list) \<times> 'p manifold \<times> graph \<times> 'r" where
  "walk_step choice m g rng [] = (Inr [], m, g, rng)"
| "walk_step choice m g rng (c # cs) =
    (case neighbors m g c ''walkable'' of
       (Inl e, m1, g1) \<Rightarrow> (Inl e, m1, g1, rng)
     | (Inr ns, m1, g1) \<Rightarrow>
        (case probabilities m1 g1 c of
           (Inl e, m2, g2) \<Rightarrow> (Inl e, m2, g2, rng)
         | (Inr ps, m2, g2) \<Rightarrow>
            (case choice rng ns ps of
               (n, rng1) \<Rightarrow>
                (case walk_step choice m2 g2 rng1 cs of
                   (Inl e, m3, g3, rng3) \<Rightarrow> (Inl e, m3, g3, rng3)
                 | (Inr rest, m3, g3, rng3) \<Rightarrow> (Inr (n # rest), m3, g3, rng3)))))"

text \<open>\<^verbatim>\<open>counts[cluster] += 1\<close> for the clusters of a list, in order.\<close>

fun increment_counts :: "(cluster \<times> int) list \<Rightarrow> cluster list \<Rightarrow> error + (cluster \<times> int) list" where
  "increment_counts counts [] = Inr counts"
| "increment_counts counts (c # cs) =
    (case map_of counts c of
       None \<Rightarrow> Inl KeyError
     | Some k \<Rightarrow> increment_counts (dict_set c (k + 1) counts) cs)"

text \<open>The loop \<^verbatim>\<open>for _ in range(steps)\<close> of \<^verbatim>\<open>random_walks\<close>.\<close>

fun walk_loop ::
  "'r chooser \<Rightarrow> 'p manifold \<Rightarrow> graph \<Rightarrow> 'r \<Rightarrow> nat \<Rightarrow> cluster list \<Rightarrow> (cluster \<times> int) list \<Rightarrow>
   (error + (cluster \<times> int) list) \<times> 'p manifold \<times> graph \<times> 'r" where
  "walk_loop choice m g rng 0 walks counts = (Inr counts, m, g, rng)"
| "walk_loop choice m g rng (Suc n) walks counts =
    (case walk_step choice m g rng walks of
       (Inl e, m1, g1, rng1) \<Rightarrow> (Inl e, m1, g1, rng1)
     | (Inr walks', m1, g1, rng1) \<Rightarrow>
        (case increment_counts counts walks' of
           Inl e \<Rightarrow> (Inl e, m1, g1, rng1)
         | Inr counts' \<Rightarrow> walk_loop choice m1 g1 rng1 n walks' counts'))"

text \<open>
  The comprehension of the last loop of \<^verbatim>\<open>random_walks\<close> for one walkable cluster: the
  new counts of its subsumed neighbours, all read from the counts before the update.
\<close>

fun subsumed_counts ::
  "(cluster \<times> int) list \<Rightarrow> cluster \<Rightarrow> cluster list \<Rightarrow> error + (cluster \<times> int) list" where
  "subsumed_counts counts c [] = Inr []"
| "subsumed_counts counts c (n # ns) =
    (case (map_of counts c, map_of counts n) of
       (Some kc, Some kn) \<Rightarrow>
        (case subsumed_counts counts c ns of
           Inl e \<Rightarrow> Inl e
         | Inr rest \<Rightarrow> Inr ((n, kc + kn) # rest))
     | _ \<Rightarrow> Inl KeyError)"

fun add_subsumed_counts ::
  "'p manifold \<Rightarrow> graph \<Rightarrow> cluster list \<Rightarrow> (cluster \<times> int) list \<Rightarrow>
   (error + (cluster \<times> int) list) \<times> 'p manifold \<times> graph" where
  "add_subsumed_counts m g [] counts = (Inr counts, m, g)"
| "add_subsumed_counts m g (c # cs) counts =
    (case neighbors m g c ''subsumed'' of
       (Inl e, m1, g1) \<Rightarrow> (Inl e, m1, g1)
     | (Inr ns, m1, g1) \<Rightarrow>
        (case subsumed_counts counts c ns of
           Inl e \<Rightarrow> (Inl e, m1, g1)
         | Inr items \<Rightarrow> add_subsumed_counts m1 g1 cs (dict_update counts items)))"

text \<open>\<^verbatim>\<open>Graph.random_walks\<close>.\<close>

definition random_walks ::
  "'r chooser \<Rightarrow> 'p manifold \<Rightarrow> graph \<Rightarrow> 'r \<Rightarrow> starts \<Rightarrow> int \<Rightarrow>
   (error + (cluster \<times> int) list) \<times> 'p manifold \<times> graph \<times> 'r" where
  "random_walks choice m g rng s steps =
    (if cardinality g < 2 then (Inr (dict_of (map (\<lambda>c. (c, 1)) (clusters g))), m, g, rng)
     else
       (case resolve_starts m s of
          Inl e \<Rightarrow> (Inl e, m, g, rng)
        | Inr start_clusters \<Rightarrow>
           (case (if edges_missing g then build_edges m g else (None, m, g)) of
              (Some e, m1, g1) \<Rightarrow> (Inl e, m1, g1, rng)
            | (None, m1, g1) \<Rightarrow>
               (case cached walkable_clusters m1 g1 of
                  (Inl e, m2, g2) \<Rightarrow> (Inl e, m2, g2, rng)
                | (Inr walkable, m2, g2) \<Rightarrow>
                   if list_ex (\<lambda>c. c \<notin> set walkable) start_clusters
                   then (Inl ValueError, m2, g2, rng)
                   else
                     (case cached walkable_edges m2 g2 of
                        (Inl e, m3, g3) \<Rightarrow> (Inl e, m3, g3, rng)
                      | (Inr w_edges, m3, g3) \<Rightarrow>
                         if list_ex (\<lambda>c. map_of w_edges c = None) start_clusters
                         then (Inl KeyError, m3, g3, rng)
                         else
                           let counts = dict_update (dict_of (map (\<lambda>c. (c, 0)) (clusters g3)))
                                          (map (\<lambda>c. (c, 1)) start_clusters);
                               walks = filter (\<lambda>c. 0 < length (the (map_of w_edges c))) start_clusters
                           in (case walk_loop choice m3 g3 rng (nat steps) walks counts of
                                 (Inl e, m4, g4, rng4) \<Rightarrow> (Inl e, m4, g4, rng4)
                               | (Inr counts', m4, g4, rng4) \<Rightarrow>
                                  (case cached walkable_clusters m4 g4 of
                                     (Inl e, m5, g5) \<Rightarrow> (Inl e, m5, g5, rng4)
                                   | (Inr walkable', m5, g5) \<Rightarrow>
                                      (case add_subsumed_counts m5 g5 walkable' counts' of
                                         (r, m6, g6) \<Rightarrow> (r, m6, g6, rng4)))))))))"

section \<open>Example manifolds\<close>

text \<open>
  The examples are sets of points on the real line with the distance \<open>\<bar>x - y\<bar>\<close>.
\<close>

definition line_metric :: "real \<Rightarrow> real \<Rightarrow> real" where
  "line_metric x y = \<bar>x - y\<bar>"

text \<open>
  The manifold of the single row 0. Its root has one sample and is never partitioned,
  so the tree has the one layer of the root. \<open>single_fresh\<close> is the manifold when
  \<^verbatim>\<open>build_tree\<close> returns, \<open>single_manifold\<close> the manifold after \<^verbatim>\<open>build_graph\<close>.
\<close>

definition single_root :: cluster where
  "single_root = Cluster [] [0] (Some []) [0] 0 0 0"

definition single_graph :: graph where
  "single_graph = \<lparr> edges = [(single_root, Some [])],
     subsumed_clusters = Some [], walkable_clusters = Some [single_root],
     subsumed_edges = Some [(single_root, [])], walkable_edges = Some [(single_root, [])] \<rparr>"

definition single_fresh :: "real manifold" where
  "single_fresh = \<lparr> data = (\<lambda>i. 0), metric = line_metric, mroot = single_root,
     layers = [Graph [single_root]], mgraph = Graph [single_root],
     candidates = (\<lambda>n. None) \<rparr>"

definition single_manifold :: "real manifold" where
  "single_manifold = \<lparr> data = (\<lambda>i. 0), metric = line_metric, mroot = single_root,
     layers = [Graph [single_root]], mgraph = single_graph,
     candidates = (\<lambda>n. if n = [] then Some [(single_root, 0)] else None) \<rparr>"

text \<open>A draw that takes the first neighbour and counts the draws.\<close>

definition first_choice :: "nat chooser" where
  "first_choice rng ns ps = (hd ns, Suc rng)"

text \<open>
  Five rows on the line: 0, -10, 10, -9 and 9. \<open>five_unsplit\<close> is the root before it is
  partitioned, with the cache its properties fill: all five rows are samples, the
  medoid is row 0, the farthest row from it is row 1, at distance 10. \<open>five_geometry\<close>
  gives the caches of the two children that partitioning it makes. \<open>max_depth n\<close> is
  a criterion that holds on the clusters of depth less than \<open>n\<close>.
\<close>

definition five_data :: "nat \<Rightarrow> real" where
  "five_data i = [0, - 10, 10, - 9, 9] ! i"

definition five_unsplit :: cluster where
  "five_unsplit = Cluster [] [0, 1, 2, 3, 4] None [0, 1, 2, 3, 4] 0 1 10"

definition five_start :: "real manifold" where
  "five_start = \<lparr> data = five_data, metric = line_metric, mroot = five_unsplit,
     layers = [Graph [five_unsplit]], mgraph = Graph [five_unsplit],
     candidates = (\<lambda>n. None) \<rparr>"



text \<open>
  The tree of the five rows when \<^verbatim>\<open>build_tree\<close> returns, with the criterion
  \<open>max_depth 1\<close>: the root and its two children, which are leaves. \<open>five_fresh\<close> is the
  manifold when the leaves are taken for the graph, \<open>five_seeded\<close> the manifold when
  \<^verbatim>\<open>build_graph\<close> has set the candidates of the root, and \<open>five_after_0\<close> the manifold
  after \<^verbatim>\<open>_find_candidates\<close> for the first leaf.
\<close>

definition five_0 :: cluster where
  "five_0 = Cluster ''0'' [2, 4] (Some []) [2, 4] 2 4 1"

definition five_01 :: cluster where
  "five_01 = Cluster ''01'' [1, 0, 3] (Some []) [1, 0, 3] 3 0 9"

definition five_root :: cluster where
  "five_root = Cluster [] [0, 1, 2, 3, 4] (Some [five_0, five_01]) [0, 1, 2, 3, 4] 0 1 10"

definition five_fresh :: "real manifold" where
  "five_fresh = \<lparr> data = five_data, metric = line_metric, mroot = five_root,
     layers = [Graph [five_root], Graph [five_0, five_01]], mgraph = Graph [five_0, five_01],
     candidates = (\<lambda>n. None) \<rparr>"

definition five_seeded :: "real manifold" where
  "five_seeded = five_fresh\<lparr>candidates := (candidates five_fresh)([] \<mapsto> [(five_root, 0)])\<rparr>"

definition five_after_0 :: "real manifold" where
  "five_after_0 = five_seeded\<lparr>candidates :=
      (candidates five_seeded)(''0'' \<mapsto> [(five_root, 10), (five_0, 0)])\<rparr>"





subsection \<open>A seven-point example with two levels of partitioning\<close>

text \<open>Rows 0, 3, 2, 8, 4, 13, 6 on the real line, partitioned to depth 2; the caches hold
  the values the properties of the source compute (medoid, radius).\<close>

definition seven_data :: "nat \<Rightarrow> real" where
  "seven_data i = [0, 3, 2, 8, 4, 13, 6] ! i"

definition seven_00 :: cluster where
  "seven_00 = Cluster ''00'' [5] (Some []) [5] 5 5 0"

definition seven_001 :: cluster where
  "seven_001 = Cluster ''001'' [3] (Some []) [3] 3 3 0"

definition seven_010 :: cluster where
  "seven_010 = Cluster ''010'' [6, 4] (Some []) [6, 4] 6 4 2"

definition seven_0101 :: cluster where
  "seven_0101 = Cluster ''0101'' [0, 1, 2] (Some []) [0, 1, 2] 2 0 2"

definition seven_0 :: cluster where
  "seven_0 = Cluster ''0'' [5, 3] (Some [seven_00, seven_001]) [5, 3] 5 3 5"

definition seven_01 :: cluster where
  "seven_01 = Cluster ''01'' [0, 1, 2, 4, 6] (Some [seven_010, seven_0101]) [0, 1, 2, 4, 6] 1 0 3"

definition seven_root :: cluster where
  "seven_root = Cluster [] [0, 1, 2, 3, 4, 5, 6] (Some [seven_0, seven_01]) [0, 1, 2, 3, 4, 5, 6] 4 5 9"

definition seven_leaves :: "cluster list" where
  "seven_leaves = [seven_00, seven_001, seven_010, seven_0101]"

definition seven_fresh :: "real manifold" where
  "seven_fresh = \<lparr> data = seven_data, metric = line_metric, mroot = seven_root,
     layers = [Graph [seven_root], Graph [seven_0, seven_01], Graph seven_leaves],
     mgraph = Graph seven_leaves, candidates = (\<lambda>n. None) \<rparr>"

definition seven_seeded :: "real manifold" where
  "seven_seeded = seven_fresh\<lparr>candidates := (candidates seven_fresh)([] \<mapsto> [(seven_root, 0)])\<rparr>"

definition seven_graph :: graph where
  "seven_graph = \<lparr> edges = [(seven_00, Some []), (seven_001, Some [(seven_010, 2, None)]),
        (seven_010, Some [(seven_001, 2, None), (seven_0101, 4, None)]),
        (seven_0101, Some [(seven_010, 4, None)])],
     subsumed_clusters = Some [seven_001],
     walkable_clusters = Some [seven_00, seven_010, seven_0101],
     subsumed_edges = Some [(seven_00, []), (seven_001, []), (seven_010, [(seven_001, 2, None)]),
        (seven_0101, [])],
     walkable_edges = Some [(seven_00, []), (seven_010, [(seven_0101, 4, Some 1)]),
        (seven_0101, [(seven_010, 4, Some 1)])] \<rparr>"

definition seven_built :: "real manifold" where
  "seven_built = fst (snd (build_edges seven_seeded (mgraph seven_seeded)))"

subsection \<open>An eight-point example with two walkable edges at one cluster\<close>

text \<open>Rows 13, 10, 7, 12, 14, 2, 8, 16 on the real line, partitioned to depth 2; the caches
  hold the values the properties of the source compute. \<open>eight_graph\<close> is the graph of the
  four leaves after \<^verbatim>\<open>build_edges\<close>: no leaf is subsumed, and the leaf \<open>010\<close> has the two
  neighbours \<open>001\<close>, at distance 2, and \<open>0101\<close>, at distance 4.\<close>

definition eight_data :: "nat \<Rightarrow> real" where
  "eight_data i = [13, 10, 7, 12, 14, 2, 8, 16] ! i"

definition eight_00 :: cluster where
  "eight_00 = Cluster ''00'' [5] (Some []) [5] 5 5 0"

definition eight_001 :: cluster where
  "eight_001 = Cluster ''001'' [6, 2] (Some []) [6, 2] 6 2 1"

definition eight_010 :: cluster where
  "eight_010 = Cluster ''010'' [1, 3] (Some []) [1, 3] 1 3 2"

definition eight_0101 :: cluster where
  "eight_0101 = Cluster ''0101'' [7, 0, 4] (Some []) [7, 0, 4] 4 7 2"

definition eight_0 :: cluster where
  "eight_0 = Cluster ''0'' [5, 2, 6] (Some [eight_00, eight_001]) [5, 2, 6] 2 5 5"

definition eight_01 :: cluster where
  "eight_01 = Cluster ''01'' [7, 0, 1, 3, 4] (Some [eight_010, eight_0101]) [7, 0, 1, 3, 4] 0 7 3"

definition eight_root :: cluster where
  "eight_root = Cluster [] [0, 1, 2, 3, 4, 5, 6, 7] (Some [eight_0, eight_01])
     [0, 1, 2, 3, 4, 5, 6, 7] 1 5 8"

definition eight_leaves :: "cluster list" where
  "eight_leaves = [eight_00, eight_001, eight_010, eight_0101]"

definition eight_seeded :: "real manifold" where
  "eight_seeded = \<lparr> data = eight_data, metric = line_metric, mroot = eight_root,
     layers = [Graph [eight_root], Graph [eight_0, eight_01], Graph eight_leaves],
     mgraph = Graph eight_leaves, candidates = (\<lambda>n. None)([] \<mapsto> [(eight_root, 0)]) \<rparr>"

definition eight_graph :: graph where
  "eight_graph = \<lparr> edges = [(eight_00, Some []), (eight_001, Some [(eight_010, 2, None)]),
        (eight_010, Some [(eight_001, 2, None), (eight_0101, 4, None)]),
        (eight_0101, Some [(eight_010, 4, None)])],
     subsumed_clusters = Some [],
     walkable_clusters = Some [eight_00, eight_001, eight_010, eight_0101],
     subsumed_edges = Some [(eight_00, []), (eight_001, []), (eight_010, []), (eight_0101, [])],
     walkable_edges = Some [(eight_00, []), (eight_001, [(eight_010, 2, Some 1)]),
        (eight_010, [(eight_001, 2, Some (2 / 3)), (eight_0101, 4, Some (1 / 3))]),
        (eight_0101, [(eight_010, 4, Some 1)])] \<rparr>"

definition eight_built :: "real manifold" where
  "eight_built = fst (snd (build_edges eight_seeded (mgraph eight_seeded)))"



lemma single_built: "build_graph single_fresh = (None, single_manifold)"
  apply (simp add: build_graph_def single_fresh_def single_manifold_def single_graph_def
    Graph_def key_add_def dict_of_def dict_update_def clusters_def build_edges_def find_neighbors_def
    single_root_def distance_def line_metric_def split_walkable_vs_subsumed_def edges_of_def
    recompute_transition_probabilities_def set_add_def subsumed_of_def walkable_of_def
    subsumed_edges_of_def walkable_edges_of_def)
  apply (rule ext)
  apply (simp add: single_root_def)
  done

section \<open>Nearest neighbours (C1)\<close>

lemma single_find_points_short:
  "\<exists>res. find_points single_manifold q r = Inr res \<and> length res < 2"
  by (simp add: find_points_def find_clusters_def tree_search_def single_manifold_def
    single_root_def depth_def overlaps_def distance_from_def line_metric_def Graph_def key_add_def
    dict_of_def dict_update_def clusters_def tree_search_inner_def has_children_def
    children_of_def batches.simps BATCH_SIZE_def)

lemma single_knn_loop_Some:
  assumes "find_knn_loop m q k r res = Some y"
  shows "\<not> (m = single_manifold \<and> k = 2 \<and> length res < 2)"
proof (rule find_knn_loop.raw_induct[OF _ assms])
  fix f :: "real manifold \<Rightarrow> real \<Rightarrow> int \<Rightarrow> real \<Rightarrow> (nat \<times> real) list \<Rightarrow>
    (error + (nat \<times> real) list) option"
  fix m point k r results y
  assume IH: "\<And>m point k r results y. f m point k r results = Some y \<Longrightarrow>
                \<not> (m = single_manifold \<and> k = 2 \<and> length results < 2)"
  assume body: "(if int (length results) < k
      then case find_points m point (r * 2) of Inl e \<Rightarrow> Some (Inl e)
           | Inr results' \<Rightarrow> f m point k (r * 2) results'
      else Some (Inr results)) = Some y"
  show "\<not> (m = single_manifold \<and> k = 2 \<and> length results < 2)"
  proof
    assume a: "m = single_manifold \<and> k = 2 \<and> length results < 2"
    obtain res' where r': "find_points single_manifold point (r * 2) = Inr res'" "length res' < 2"
      using single_find_points_short by blast
    from body a r' have "f m point k (r * 2) res' = Some y" by simp
    from IH[OF this] a r' show False by simp
  qed
qed

lemma single_knn_loop_None:
  "length res < 2 \<Longrightarrow> find_knn_loop single_manifold q 2 r res = None"
  using single_knn_loop_Some[of single_manifold q 2 r res]
  by (cases "find_knn_loop single_manifold q 2 r res") auto

text \<open>
  C1 (code does not do this): \<^verbatim>\<open>find_knn(q, k)\<close> is claimed to end for every \<open>k \<ge> 1\<close> and
  to return \<open>min(k, N)\<close> pairs. On the manifold of one point and \<open>k = 2\<close> the search never
  finds two points, whatever the radius, and the loop that doubles the radius never
  ends: the call has no result.
\<close>

theorem find_knn_single_point_diverges: "find_knn single_manifold q 2 = None"
proof -
  let ?r = "max (sum_list (map radius (clusters (last (layers single_manifold))))
                 / real (length (map radius (clusters (last (layers single_manifold))))))
                (1 / 10 ^ 16)"
  obtain res where r: "find_points single_manifold q ?r = Inr res" "length res < 2"
    using single_find_points_short by blast
  have l: "layers single_manifold \<noteq> []" by (simp add: single_manifold_def)
  show ?thesis
    unfolding find_knn_def Let_def using r l single_knn_loop_None[OF r(2)] by simp
qed

section \<open>Tree search (C2, C3)\<close>

text \<open>
  C2 (code does not do this): \<^verbatim>\<open>tree_search\<close> at the depth of the cluster itself is claimed
  to return the cluster only when it overlaps the query ball. The root of the manifold
  of the single row 0 has radius 0; the query point 5 with radius 1 is at distance 5,
  so there is no overlap, and the search at depth 0 returns the root all the same.
\<close>

theorem tree_search_own_depth_no_overlap:
  "tree_search single_manifold single_root 5 1 0 = Inr [(single_root, 5)]
   \<and> \<not> overlaps single_manifold single_root 5 1"
  by (simp add: tree_search_def single_manifold_def single_root_def depth_def overlaps_def
    distance_from_def line_metric_def)

text \<open>
  What \<^verbatim>\<open>tree_search\<close> does with the depth \<open>-1\<close>: it is replaced by the number of layers,
  \<^verbatim>\<open>len(self.manifold.layers)\<close>, one more than the index of the deepest layer; and a depth
  that, after this replacement, is less than the depth of the cluster raises
  \<^verbatim>\<open>ValueError\<close>.
\<close>

lemma tree_search_minus_one:
  "tree_search m c point r (- 1) = tree_search m c point r (int (length (layers m)))
   \<and> ((if dpth = - 1 then int (length (layers m)) else dpth) < int (depth c)
        \<longrightarrow> tree_search m c point r dpth = Inl ValueError)"
  by (simp add: tree_search_def)

text \<open>
  On a cluster of the deepest layer that has no children and overlaps the query ball,
  the depth \<open>-1\<close> and the index of the deepest layer give the same result: the search
  below the cluster finds the cluster itself.
\<close>

lemma tree_search_minus_one_overlapping_leaf:
  assumes deepest: "int (depth c) = int (length (layers m)) - 1"
    and leaf: "\<not> has_children c"
    and over: "overlaps m c point r"
  shows "tree_search m c point r (- 1) = Inr [(c, distance_from m c point)]"
    and "tree_search m c point r (int (length (layers m)) - 1) = Inr [(c, distance_from m c point)]"
proof -
  from deepest have n: "nat (int (length (layers m)) - int (depth c)) = Suc 0" by simp
  from over have le: "distance_from m c point \<le> r + radius c" by (simp add: overlaps_def)
  have "tree_search_inner m c point r (int (length (layers m))) = Inr [(c, distance_from m c point)]"
    using deepest leaf le
    by (simp add: tree_search_inner_def n Let_def dict_update_def dict_of_def)
  moreover from deepest have "\<not> int (length (layers m)) < int (depth c)"
    "int (depth c) \<noteq> int (length (layers m))" by linarith+
  ultimately show "tree_search m c point r (- 1) = Inr [(c, distance_from m c point)]"
    using over by (simp add: tree_search_def)
  from deepest have "int (length (layers m)) - 1 \<noteq> - 1" by linarith
  then show "tree_search m c point r (int (length (layers m)) - 1) = Inr [(c, distance_from m c point)]"
    using deepest by (simp add: tree_search_def)
qed

text \<open>
  C3 (code does not do this): \<^verbatim>\<open>tree_search\<close> at depth \<open>-1\<close> is claimed to behave as at the
  index of the deepest layer, \<^verbatim>\<open>len(layers) - 1\<close>. On the manifold of the single row 0 that
  index is 0, the depth of the root. For the query point 5 with radius 1, which the root
  does not overlap, the search from the root at depth \<open>-1\<close> finds nothing, and at depth 0
  it returns the root: the branch \<^verbatim>\<open>if self.depth == depth\<close> returns the cluster without
  the overlap test that every other branch makes. The two depths differ through this
  branch only.
\<close>

theorem tree_search_minus_one_not_last_index:
  "int (length (layers single_manifold)) - 1 = 0
   \<and> \<not> overlaps single_manifold single_root 5 1
   \<and> tree_search single_manifold single_root 5 1 (- 1) = Inr []
   \<and> tree_search single_manifold single_root 5 1 (int (length (layers single_manifold)) - 1)
       = Inr [(single_root, 5)]"
  by (simp add: tree_search_def single_manifold_def single_root_def depth_def overlaps_def
    distance_from_def line_metric_def)

section \<open>Random walks on a graph of fewer than two clusters (C10)\<close>

lemma dict_of_short: "length xs < 2 \<Longrightarrow> dict_of xs = xs"
  by (cases xs; cases "tl xs") (auto simp: dict_of_def dict_update_def)

text \<open>
  C10: on a graph of fewer than two clusters \<^verbatim>\<open>random_walks\<close> returns the count 1 for
  every cluster of the graph, whatever the starts and the number of steps; it raises
  nothing, and the manifold, the graph (its edges and its cache) and the state of the
  random generator are as they were, so no edge is built, no start resolved or checked
  and nothing drawn.
\<close>

theorem random_walks_small_graph:
  "cardinality g < 2 \<Longrightarrow>
   random_walks choice m g rng s steps = (Inr (map (\<lambda>c. (c, 1)) (clusters g)), m, g, rng)"
  by (simp add: random_walks_def cardinality_def clusters_def dict_of_short)

theorem random_walks_small_graph_witness:
  "cardinality (Graph [single_root]) < 2 \<and>
   random_walks first_choice single_fresh (Graph [single_root]) 0 (StartName ''1'') 3
     = (Inr [(single_root, 1)], single_fresh, Graph [single_root], 0)"
  using random_walks_small_graph[of "Graph [single_root]" first_choice single_fresh 0
          "StartName ''1''" 3]
  by (simp add: cardinality_def Graph_def key_add_def dict_of_def dict_update_def clusters_def)

section \<open>Partitioning (C7)\<close>

lemma argmax_from_spec:
  "i = length pre \<Longrightarrow> best < i \<Longrightarrow> bv = (pre @ xs) ! best \<Longrightarrow> \<forall>x\<in>set pre. x \<le> bv \<Longrightarrow>
   argmax_from best bv i xs < length (pre @ xs) \<and>
   (\<forall>x\<in>set (pre @ xs). x \<le> (pre @ xs) ! argmax_from best bv i xs)"
proof (induction xs arbitrary: pre best bv i)
  case Nil
  then show ?case by simp
next
  case (Cons x xs)
  show ?case
  proof (cases "bv < x")
    case True
    have a: "argmax_from best bv i (x # xs) = argmax_from i x (Suc i) xs" using True by simp
    have "argmax_from i x (Suc i) xs < length ((pre @ [x]) @ xs) \<and>
       (\<forall>y\<in>set ((pre @ [x]) @ xs). y \<le> ((pre @ [x]) @ xs) ! argmax_from i x (Suc i) xs)"
      apply (rule Cons.IH)
      using Cons.prems True by (auto simp: nth_append)
    then show ?thesis using a by simp
  next
    case False
    have a: "argmax_from best bv i (x # xs) = argmax_from best bv (Suc i) xs" using False by simp
    have "argmax_from best bv (Suc i) xs < length ((pre @ [x]) @ xs) \<and>
       (\<forall>y\<in>set ((pre @ [x]) @ xs). y \<le> ((pre @ [x]) @ xs) ! argmax_from best bv (Suc i) xs)"
      apply (rule Cons.IH)
      using Cons.prems False by (auto simp: nth_append)
    then show ?thesis using a by simp
  qed
qed

lemma argmax_spec:
  assumes "xs \<noteq> []"
  shows "argmax xs < length xs \<and> (\<forall>x\<in>set xs. x \<le> xs ! argmax xs)"
proof -
  obtain x rest where xs: "xs = x # rest" using assms by (cases xs) auto
  from argmax_from_spec[of 1 "[x]" 0 x rest] show ?thesis
    by (simp add: xs argmax_def)
qed






lemma sort_key_pair:
  "sort_key length [a, b] = (if length a \<le> length b then [a, b] else [b, a])"
  by simp

lemma enumerate_pair: "enumerate 0 [a, b] = [(0, a), (Suc 0, b)]"
  by simp





lemma new_cluster_sel [simp]:
  "name (new_cluster geom pts nm) = nm" "argpoints (new_cluster geom pts nm) = pts"
  "children (new_cluster geom pts nm) = None"
  by (auto simp: new_cluster_def split: prod.splits)


lemma find_poles_ok:
  assumes len: "1 < length (argsamples c)"
    and dist: "distinct (argsamples c)"
    and spread: "2 < length (argsamples c) \<Longrightarrow>
       \<exists>s\<in>set (argsamples c). distance m (argradius c) (argradius c) < distance m (argradius c) s"
  shows "\<exists>poles. find_poles m c = Inr poles"
proof (cases "2 < length (argsamples c)")
  case True
  let ?ds = "map (distance m (argradius c)) (argsamples c)"
  let ?far = "argsamples c ! argmax ?ds"
  from True have ne: "?ds \<noteq> []" by auto
  from argmax_spec[OF ne] have lt: "argmax ?ds < length (argsamples c)"
    and mx: "\<forall>x\<in>set ?ds. x \<le> ?ds ! argmax ?ds" by auto
  from spread[OF True] obtain s where s: "s \<in> set (argsamples c)"
    "distance m (argradius c) (argradius c) < distance m (argradius c) s" by blast
  from mx s(1) have "distance m (argradius c) s \<le> ?ds ! argmax ?ds" by auto
  also have "?ds ! argmax ?ds = distance m (argradius c) ?far" using lt by simp
  finally have "argradius c \<noteq> ?far" using s(2) by auto
  then show ?thesis using True len by (simp add: find_poles_def Let_def)
next
  case False
  then show ?thesis using len dist by (simp add: find_poles_def Let_def distinct_remdups_id)
qed

lemma five_dist [simp]:
  "distance five_start i j = \<bar>five_data i - five_data j\<bar>"
  by (simp add: distance_def five_start_def line_metric_def)

lemma five_data_simps [simp]:
  "five_data 0 = 0" "five_data (Suc 0) = - 10" "five_data 2 = 10" "five_data 3 = - 9" "five_data 4 = 9"
  by (simp_all add: five_data_def)








section \<open>Facts about dictionaries\<close>

lemma dict_set_keys: "set (map fst (dict_set k v d)) = insert k (set (map fst d))"
proof (induction d)
  case Nil
  then show ?case by simp
next
  case (Cons a d)
  obtain k' v' where a: "a = (k', v')" by (cases a)
  show ?case using Cons by (cases "k = k'") (auto simp: a)
qed

lemma dict_set_set: "set (dict_set k v d) \<subseteq> insert (k, v) (set d)"
proof (induction d)
  case Nil
  then show ?case by simp
next
  case (Cons a d)
  obtain k' v' where a: "a = (k', v')" by (cases a)
  show ?case using Cons by (cases "k = k'") (auto simp: a)
qed

lemma dict_set_distinct: "distinct (map fst d) \<Longrightarrow> distinct (map fst (dict_set k v d))"
proof (induction d)
  case Nil
  then show ?case by simp
next
  case (Cons a d)
  obtain k' v' where a: "a = (k', v')" by (cases a)
  show ?case
  proof (cases "k = k'")
    case True
    with Cons.prems a show ?thesis by simp
  next
    case False
    with Cons a show ?thesis
      using dict_set_keys[of k v d] by auto
  qed
qed

lemma dict_set_fresh: "k \<notin> fst ` set d \<Longrightarrow> dict_set k v d = d @ [(k, v)]"
  by (induction d) auto

lemma map_of_dict_set: "map_of (dict_set k v d) = (map_of d)(k \<mapsto> v)"
  by (induction d) (auto simp: fun_eq_iff)

lemma dict_update_Nil [simp]: "dict_update d [] = d"
  by (simp add: dict_update_def)

lemma dict_update_Cons: "dict_update d ((k, v) # xs) = dict_update (dict_set k v d) xs"
  by (simp add: dict_update_def)

lemma dict_update_keys: "set (map fst (dict_update d xs)) = set (map fst d) \<union> set (map fst xs)"
proof (induction xs arbitrary: d)
  case Nil
  then show ?case by simp
next
  case (Cons a xs)
  obtain k v where a: "a = (k, v)" by (cases a)
  show ?case using Cons[of "dict_set k v d"] dict_set_keys[of k v d]
    by (simp add: a dict_update_Cons)
qed

lemma dict_update_distinct: "distinct (map fst d) \<Longrightarrow> distinct (map fst (dict_update d xs))"
proof (induction xs arbitrary: d)
  case Nil
  then show ?case by simp
next
  case (Cons a xs)
  obtain k v where a: "a = (k, v)" by (cases a)
  show ?case using Cons.IH[OF dict_set_distinct[OF Cons.prems, of k v]]
    by (simp add: a dict_update_Cons)
qed

lemma dict_update_fresh:
  "distinct (map fst xs) \<Longrightarrow> fst ` set xs \<inter> fst ` set d = {} \<Longrightarrow> dict_update d xs = d @ xs"
proof (induction xs arbitrary: d)
  case Nil
  then show ?case by simp
next
  case (Cons a xs)
  obtain k v where a: "a = (k, v)" by (cases a)
  from Cons.prems a have fresh: "k \<notin> fst ` set d" by auto
  have "dict_update (d @ [(k, v)]) xs = (d @ [(k, v)]) @ xs"
    apply (rule Cons.IH)
    using Cons.prems a by auto
  then show ?case by (simp add: a dict_update_Cons dict_set_fresh[OF fresh])
qed

lemma dict_of_distinct: "distinct (map fst xs) \<Longrightarrow> dict_of xs = xs"
  using dict_update_fresh[of xs "[]"] by (simp add: dict_of_def)

lemma dict_of_keys: "set (map fst (dict_of xs)) = set (map fst xs)"
  using dict_update_keys[of "[]" xs] by (simp add: dict_of_def)

lemma dict_of_distinct_keys: "distinct (map fst (dict_of xs))"
  by (simp add: dict_of_def dict_update_distinct)

lemma working_set_distinct: "distinct (working_set pc dp)"
  unfolding working_set_def by (rule dict_update_distinct) (rule dict_of_distinct_keys)

lemma working_set_set:
  "set (working_set pc dp) =
     fst ` set pc \<union> {ch. \<exists>c d. (c, d) \<in> set pc \<and> depth c = dp \<and> ch \<in> set (children_of c)}"
  unfolding working_set_def dict_update_keys dict_of_keys
  by (auto simp: image_iff) force+

lemma zip_map_self: "zip xs (map f xs) = map (\<lambda>x. (x, f x)) xs"
  by (induction xs) auto

lemma retained_eq:
  "distinct keys \<Longrightarrow>
   dict_of (filter (\<lambda>(c, d). d \<le> radius c + rad * 4) (zip keys (map f keys)))
     = map (\<lambda>x. (x, f x)) (filter (\<lambda>x. f x \<le> radius x + rad * 4) keys)"
proof -
  assume d: "distinct keys"
  have e: "filter (\<lambda>(c, d). d \<le> radius c + rad * 4) (zip keys (map f keys))
     = map (\<lambda>x. (x, f x)) (filter (\<lambda>x. f x \<le> radius x + rad * 4) keys)"
    by (simp add: zip_map_self filter_map comp_def)
  have "distinct (map fst (map (\<lambda>x. (x, f x)) (filter (\<lambda>x. f x \<le> radius x + rad * 4) keys)))"
    using d by (simp add: comp_def)
  then show ?thesis unfolding e by (rule dict_of_distinct)
qed

section \<open>Candidates (C4)\<close>

lemma find_candidates_loop_frame:
  "find_candidates_loop m anc dps rad = (e, m') \<Longrightarrow>
   data m' = data m \<and> metric m' = metric m \<and> mroot m' = mroot m \<and> layers m' = layers m
   \<and> mgraph m' = mgraph m
   \<and> (\<forall>nm. candidates m nm \<noteq> None \<or> nm \<notin> (\<lambda>dp. name (anc ! Suc dp)) ` set dps
              \<longrightarrow> candidates m' nm = candidates m nm)"
proof (induction m anc dps rad arbitrary: e m' rule: find_candidates_loop.induct)
  case (1 m anc rad)
  then show ?case by simp
next
  case (2 m anc dp dps rad)
  show ?case
  proof (cases "length anc \<le> Suc dp")
    case True
    with 2(3) show ?thesis by simp
  next
    case False
    let ?child = "anc ! Suc dp"
    let ?rad = "if 0 < radius ?child then radius ?child else rad"
    show ?thesis
    proof (cases "candidates m (name ?child)")
      case (Some cs)
      with 2(3) False have "find_candidates_loop m anc dps ?rad = (e, m')" by (simp add: Let_def)
      from 2(2)[OF False refl refl refl Some this] show ?thesis by auto
    next
      case None
      show ?thesis
      proof (cases "candidates m (name (anc ! dp))")
        case n2: None
        with 2(3) False None show ?thesis by (simp add: Let_def)
      next
        case (Some pc)
        show ?thesis
        proof (cases "list_ex (\<lambda>(c, d). children c = None) pc")
          case True
          with 2(3) False None Some show ?thesis by (simp add: Let_def)
        next
          case nex: False
          let ?keys = "working_set pc dp"
          let ?distances = "map (\<lambda>c. distance m (argmedoid ?child) (argmedoid c)) ?keys"
          let ?new = "if 0 < length ?keys
                then dict_of (filter (\<lambda>(c, d). d \<le> radius c + ?rad * 4) (zip ?keys ?distances))
                else []"
          let ?m1 = "m\<lparr>candidates := (candidates m)(name ?child \<mapsto> ?new)\<rparr>"
          from 2(3) False None Some nex have run: "find_candidates_loop ?m1 anc dps ?rad = (e, m')"
            by (simp add: Let_def)
          from 2(1)[OF False refl refl refl None Some nex refl refl refl run]
          have IH: "data m' = data ?m1 \<and> metric m' = metric ?m1 \<and> mroot m' = mroot ?m1
             \<and> layers m' = layers ?m1 \<and> mgraph m' = mgraph ?m1
             \<and> (\<forall>nm. candidates ?m1 nm \<noteq> None \<or> nm \<notin> (\<lambda>dp. name (anc ! Suc dp)) ` set dps
              \<longrightarrow> candidates m' nm = candidates ?m1 nm)" .
          show ?thesis using IH None by auto
        qed
      qed
    qed
  qed
qed

lemma find_candidates_loop_append:
  "find_candidates_loop m anc (xs @ ys) rad =
     (case find_candidates_loop m anc xs rad of
        (Some e, m1) \<Rightarrow> (Some e, m1)
      | (None, m1) \<Rightarrow> find_candidates_loop m1 anc ys (radius_after anc xs rad))"
proof (induction m anc xs rad rule: find_candidates_loop.induct)
  case (1 m anc rad)
  then show ?case by (simp add: radius_after_def)
next
  case (2 m anc dp dps rad)
  show ?case
  proof (cases "length anc \<le> Suc dp")
    case True
    then show ?thesis by simp
  next
    case False
    let ?child = "anc ! Suc dp"
    let ?rad = "if 0 < radius ?child then radius ?child else rad"
    have ra: "radius_after anc (dp # dps) rad = radius_after anc dps ?rad"
      by (simp add: radius_after_def)
    show ?thesis
    proof (cases "candidates m (name ?child)")
      case (Some cs)
      have unf: "find_candidates_loop m anc (dp # zs) rad = find_candidates_loop m anc zs ?rad" for zs
        using False Some by (simp add: Let_def)
      show ?thesis unfolding append_Cons unf ra
        by (rule 2(2)[OF False refl refl refl Some])
    next
      case None
      show ?thesis
      proof (cases "candidates m (name (anc ! dp))")
        case n2: None
        with False None show ?thesis by (simp add: Let_def)
      next
        case (Some pc)
        show ?thesis
        proof (cases "list_ex (\<lambda>(c, d). children c = None) pc")
          case True
          with False None Some show ?thesis by (simp add: Let_def)
        next
          case nex: False
          let ?keys = "working_set pc dp"
          let ?distances = "map (\<lambda>c. distance m (argmedoid ?child) (argmedoid c)) ?keys"
          let ?new = "if 0 < length ?keys
                then dict_of (filter (\<lambda>(c, d). d \<le> radius c + ?rad * 4) (zip ?keys ?distances))
                else []"
          let ?m1 = "m\<lparr>candidates := (candidates m)(name ?child \<mapsto> ?new)\<rparr>"
          have unf: "find_candidates_loop m anc (dp # zs) rad = find_candidates_loop ?m1 anc zs ?rad" for zs
            using False None Some nex by (simp add: Let_def)
          show ?thesis unfolding append_Cons unf ra
            by (rule 2(1)[OF False refl refl refl None Some nex refl refl refl])
        qed
      qed
    qed
  qed
qed


lemma path_radius_snoc:
  "path_radius rad (path @ [a]) = (if 0 < radius a then radius a else path_radius rad path)"
  by (simp add: path_radius_def)

lemma radius_after_path:
  "n < length anc \<Longrightarrow> radius_after anc [0..<n] rad = path_radius rad (take n (tl anc))"
proof (induction n)
  case 0
  then show ?case by (simp add: radius_after_def path_radius_def)
next
  case (Suc n)
  then have IH: "radius_after anc [0..<n] rad = path_radius rad (take n (tl anc))" by simp
  from Suc.prems have "take (Suc n) (tl anc) = take n (tl anc) @ [anc ! Suc n]"
    by (simp add: take_Suc_conv_app_nth nth_tl)
  then show ?case using IH by (simp add: radius_after_def path_radius_snoc)
qed

lemma lineage_loop_nonempty: "lineage \<noteq> [] \<Longrightarrow> lineage_loop lineage names \<noteq> []"
  by (induction lineage names rule: lineage_loop.induct) (auto split: option.splits)

lemma ancestry_Inr:
  "ancestry m nm = Inr anc \<Longrightarrow> anc \<noteq> [] \<and> name (last anc) = nm"
  by (auto simp: ancestry_def Let_def lineage_loop_nonempty split: if_splits)

lemma depth_name: "name a = name b \<Longrightarrow> depth a = depth b"
  by (simp add: depth_def)

lemma five_names [simp]: "name five_root = []" "name five_0 = ''0''" "name five_01 = ''01''"
  by (simp_all add: five_root_def five_0_def five_01_def)

lemma five_distinct [simp]: "five_root \<noteq> five_0" "five_root \<noteq> five_01" "five_0 \<noteq> five_01"
  "five_0 \<noteq> five_root" "five_01 \<noteq> five_root" "five_01 \<noteq> five_0"
  by (auto simp: five_root_def five_0_def five_01_def)

lemma five_sel [simp]:
  "radius five_root = 10" "radius five_0 = 1" "radius five_01 = 9"
  "argmedoid five_root = 0" "argmedoid five_0 = 2" "argmedoid five_01 = 3"
  "children five_root = Some [five_0, five_01]" "children five_0 = Some []" "children five_01 = Some []"
  by (simp_all add: five_root_def five_0_def five_01_def)

lemma five_depth [simp]: "depth five_root = 0" "depth five_0 = 1" "depth five_01 = 1"
  by (simp_all add: depth_def)

lemma five_seeded_sel [simp]:
  "data five_seeded = five_data" "metric five_seeded = line_metric" "mroot five_seeded = five_root"
  "layers five_seeded = [Graph [five_root], Graph [five_0, five_01]]"
  "candidates five_seeded = (\<lambda>n. if n = [] then Some [(five_root, 0)] else None)"
  by (auto simp: five_seeded_def five_fresh_def fun_eq_iff)

lemma five_ancestry_0: "ancestry five_seeded ''0'' = Inr [five_root, five_0]"
  by (simp add: ancestry_def has_children_def children_of_def Let_def)

lemma five_working_set: "working_set [(five_root, 0)] 0 = [five_root, five_0, five_01]"
  by (simp add: working_set_def dict_of_def dict_update_def children_of_def)

lemma five_find_candidates_0: "find_candidates five_seeded five_0 = (None, five_after_0)"
  by (simp add: find_candidates_def five_ancestry_0 five_working_set distance_def line_metric_def
       dict_of_def dict_update_def five_after_0_def Let_def)


text \<open>
  C4, as claimed, fails: the radius \<open>R\<close> of the test is not the largest positive radius on
  the path from the root to the cluster. In the tree of the five rows the root has
  radius 10 and its first child radius 1. The second child is in the working set of
  the first, at distance 19 from it, and has radius 9: with the largest radius of the
  path, 10, it would be retained (19 \<le> 9 + 40), and it is not.
\<close>

theorem find_candidates_not_largest_radius:
  "fst (find_candidates five_seeded five_0) = None
   \<and> ancestry five_seeded (name five_0) = Inr [five_root, five_0]
   \<and> candidates five_seeded (name five_root) = Some [(five_root, 0)]
   \<and> five_01 \<in> set (working_set [(five_root, 0)] 0)
   \<and> distance five_seeded (argmedoid five_0) (argmedoid five_01)
        \<le> radius five_01 + 4 * largest_positive_radius [five_root, five_0]
   \<and> five_01 \<notin> fst ` set (the (candidates (snd (find_candidates five_seeded five_0)) (name five_0)))"
  by (simp add: five_find_candidates_0 five_ancestry_0 five_working_set five_after_0_def
       largest_positive_radius_def distance_def line_metric_def)

text \<open>
  C4, amended: \<^verbatim>\<open>_find_candidates\<close> for a cluster \<open>c\<close> goes down the lineage of \<open>c\<close> and computes
  the candidates of every cluster \<open>t\<close> on it, below the root, that has none yet (\<open>c\<close> itself
  and its ancestors); the candidates of the others are left as they are. For each such
  \<open>t\<close>, a cluster \<open>x\<close> of the working set (the candidates of the parent of \<open>t\<close> and the
  children of those of them that are at the depth of the parent) is retained, with its
  distance, if and only if \<open>d(t.medoid, x.medoid) \<le> x.radius + 4 * R\<close>, where \<open>R\<close> is the
  radius of the deepest cluster of positive radius among \<open>t\<close> and its ancestors below the
  root, and the radius of the root if none of them has a positive radius.
  The lineage \<open>anc\<close> that \<^verbatim>\<open>ancestry\<close> returns has the cluster of depth \<open>i\<close> at position \<open>i\<close>;
  the candidates of \<open>t\<close> are the retained clusters in the order of the working set.
\<close>

theorem find_candidates_retains:
  assumes anc: "ancestry m (name c) = Inr anc"
    and levels: "\<forall>i<length anc. depth (anc ! i) = i"
    and ok: "find_candidates m c = (None, m')"
  shows "length anc = Suc (depth c) \<and> name (anc ! depth c) = name c \<and>
    (\<forall>j<depth c.
      (case candidates m (name (anc ! Suc j)) of
         Some old \<Rightarrow> candidates m' (name (anc ! Suc j)) = Some old
       | None \<Rightarrow>
          (\<exists>pc. candidates m' (name (anc ! j)) = Some pc
            \<and> candidates m' (name (anc ! Suc j)) =
                Some (map (\<lambda>x. (x, distance m' (argmedoid (anc ! Suc j)) (argmedoid x)))
                  (filter (\<lambda>x. distance m' (argmedoid (anc ! Suc j)) (argmedoid x)
                                 \<le> radius x + 4 * path_radius (radius (mroot m')) (take (Suc j) (tl anc)))
                     (working_set pc j))))))"
proof -
  from ancestry_Inr[OF anc] have ne: "anc \<noteq> []" and last_name: "name (last anc) = name c" by auto
  have "depth (last anc) = length anc - 1"
    using levels ne by (simp add: last_conv_nth)
  with depth_name[OF last_name] have len: "length anc = Suc (depth c)" using ne by (cases anc) auto
  then have self: "name (anc ! depth c) = name c" using ne last_name by (simp add: last_conv_nth)
  let ?rad = "radius (mroot m)"
  from ok anc have run: "find_candidates_loop m anc [0..<depth c] ?rad = (None, m')"
    by (simp add: find_candidates_def)
  have names: "name (anc ! i) \<noteq> name (anc ! j)" if "i < length anc" "j < length anc" "i \<noteq> j" for i j
    using levels that depth_name[of "anc ! i" "anc ! j"] by auto
  have main: "case candidates m (name (anc ! Suc j)) of
         Some old \<Rightarrow> candidates m' (name (anc ! Suc j)) = Some old
       | None \<Rightarrow>
          (\<exists>pc. candidates m' (name (anc ! j)) = Some pc
            \<and> candidates m' (name (anc ! Suc j)) =
                Some (map (\<lambda>x. (x, distance m' (argmedoid (anc ! Suc j)) (argmedoid x)))
                  (filter (\<lambda>x. distance m' (argmedoid (anc ! Suc j)) (argmedoid x)
                                 \<le> radius x + 4 * path_radius (radius (mroot m')) (take (Suc j) (tl anc)))
                     (working_set pc j))))" if j: "j < depth c" for j
  proof -
    let ?child = "anc ! Suc j"
    from j len have lj: "Suc j < length anc" by simp
    have "[0..<depth c] = [0..<j] @ [j..<depth c]"
      using upt_add_eq_append[of 0 j "depth c - j"] j by simp
    moreover have "[j..<depth c] = j # [Suc j..<depth c]" using j by (simp add: upt_conv_Cons)
    ultimately have split: "[0..<depth c] = [0..<j] @ [j] @ [Suc j..<depth c]" by simp
    obtain e1 m1 where pre: "find_candidates_loop m anc [0..<j] ?rad = (e1, m1)"
      by (cases "find_candidates_loop m anc [0..<j] ?rad")
    from run pre have e1: "e1 = None"
      unfolding split by (cases e1) (auto simp: find_candidates_loop_append)
    let ?r1 = "radius_after anc [0..<j] ?rad"
    from run pre e1 have run2: "find_candidates_loop m1 anc ([j] @ [Suc j..<depth c]) ?r1 = (None, m')"
      unfolding split by (simp add: find_candidates_loop_append)
    obtain e2 m2 where step: "find_candidates_loop m1 anc [j] ?r1 = (e2, m2)"
      by (cases "find_candidates_loop m1 anc [j] ?r1")
    from run2 step have e2: "e2 = None"
      unfolding find_candidates_loop_append[of m1 anc "[j]"] by (cases e2) auto
    from run2 step e2 have post:
      "find_candidates_loop m2 anc [Suc j..<depth c] (radius_after anc [j] ?r1) = (None, m')"
      unfolding find_candidates_loop_append[of m1 anc "[j]"] by simp
    note fr1 = find_candidates_loop_frame[OF pre]
    note fr3 = find_candidates_loop_frame[OF post]
    have "name (anc ! Suc dp) \<noteq> name ?child" if "dp < j" for dp
      using names[of "Suc dp" "Suc j"] that lj by auto
    then have other: "\<And>dp. dp \<in> set [0..<j] \<Longrightarrow> name (anc ! Suc dp) = name ?child \<Longrightarrow> False" by simp
    have "name ?child \<notin> (\<lambda>dp. name (anc ! Suc dp)) ` set [0..<j]"
    proof
      assume "name ?child \<in> (\<lambda>dp. name (anc ! Suc dp)) ` set [0..<j]"
      then obtain dp where "dp \<in> set [0..<j]" "name ?child = name (anc ! Suc dp)" by (rule imageE)
      then show False using other[of dp] by simp
    qed
    with fr1 have c1: "candidates m1 (name ?child) = candidates m (name ?child)" by blast
    let ?rad' = "if 0 < radius ?child then radius ?child else ?r1"
    have rad': "?rad' = path_radius ?rad (take (Suc j) (tl anc))"
    proof -
      have "?rad' = radius_after anc [0..<Suc j] ?rad" by (simp add: radius_after_def)
      also have "\<dots> = path_radius ?rad (take (Suc j) (tl anc))"
        by (rule radius_after_path) (rule lj)
      finally show ?thesis .
    qed
    have keep: "candidates m' nm = candidates m2 nm" if "candidates m2 nm \<noteq> None" for nm
      using fr3 that by blast
    have root: "mroot m' = mroot m" using fr1 fr3 step
        find_candidates_loop_frame[OF step] by simp
    have dist: "distance m' = distance m1"
      using fr3 find_candidates_loop_frame[OF step] by (simp add: distance_def fun_eq_iff)
    show ?thesis
    proof (cases "candidates m (name ?child)")
      case (Some old)
      with c1 have s1: "candidates m1 (name ?child) = Some old" by simp
      with step lj have "m2 = m1" by (simp add: Let_def)
      with s1 keep[of "name ?child"] show ?thesis using Some by simp
    next
      case None
      with c1 have none1: "candidates m1 (name ?child) = None" by simp
      from step e2 none1 lj obtain pc where pc: "candidates m1 (name (anc ! j)) = Some pc"
        and nex: "\<not> list_ex (\<lambda>(c, d). children c = None) pc"
        by (cases "candidates m1 (name (anc ! j))") (auto simp: Let_def split: if_splits)
      let ?keys = "working_set pc j"
      let ?f = "\<lambda>x. distance m1 (argmedoid ?child) (argmedoid x)"
      let ?new = "map (\<lambda>x. (x, ?f x)) (filter (\<lambda>x. ?f x \<le> radius x + ?rad' * 4) ?keys)"
      have new_eq: "(if 0 < length ?keys
                    then dict_of (filter (\<lambda>(c, d). d \<le> radius c + ?rad' * 4) (zip ?keys (map ?f ?keys)))
                    else []) = ?new"
        using retained_eq[where keys = "?keys" and rad = "?rad'" and f = "?f", OF working_set_distinct]
        by auto
      from step none1 lj pc nex have m2: "m2 = m1\<lparr>candidates := (candidates m1)(name ?child \<mapsto> ?new)\<rparr>"
        unfolding new_eq[symmetric] by (simp add: Let_def)
      have p2: "candidates m2 (name (anc ! j)) = Some pc"
        using m2 pc names[of j "Suc j"] lj by simp
      have n2: "candidates m2 (name ?child) = Some ?new" using m2 by simp
      from keep[of "name (anc ! j)"] p2 have k1: "candidates m' (name (anc ! j)) = Some pc" by simp
      from keep[of "name ?child"] n2 have k2: "candidates m' (name ?child) = Some ?new" by simp
      have "?new = map (\<lambda>x. (x, distance m' (argmedoid ?child) (argmedoid x)))
                  (filter (\<lambda>x. distance m' (argmedoid ?child) (argmedoid x)
                                 \<le> radius x + 4 * path_radius (radius (mroot m')) (take (Suc j) (tl anc)))
                     ?keys)"
        unfolding dist root rad'[symmetric] by (simp add: mult.commute)
      with k1 k2 show ?thesis using None by simp
    qed
  qed
  from len self main show ?thesis by blast
qed

text \<open>
  In the tree of the seven rows, \<^verbatim>\<open>_find_candidates\<close> for the leaf \<open>010\<close> computes the
  candidates of its parent \<open>01\<close> and then its own.
\<close>

theorem find_candidates_retains_witness:
  "ancestry seven_seeded (name seven_010) = Inr [seven_root, seven_01, seven_010]
   \<and> depth seven_root = 0 \<and> depth seven_01 = 1 \<and> depth seven_010 = 2
   \<and> fst (find_candidates seven_seeded seven_010) = None
   \<and> candidates seven_seeded (name seven_01) = None
   \<and> candidates seven_seeded (name seven_010) = None
   \<and> candidates (snd (find_candidates seven_seeded seven_010)) (name seven_root)
       = Some [(seven_root, 0)]
   \<and> working_set [(seven_root, 0)] 0 = [seven_root, seven_0, seven_01]
   \<and> path_radius (radius seven_root) [seven_01] = 3
   \<and> candidates (snd (find_candidates seven_seeded seven_010)) (name seven_01)
       = Some [(seven_root, 1), (seven_0, 10), (seven_01, 0)]
   \<and> candidates (snd (find_candidates seven_seeded seven_010)) (name seven_01)
       = Some (map (\<lambda>x. (x, distance (snd (find_candidates seven_seeded seven_010))
                                (argmedoid seven_01) (argmedoid x)))
           (filter (\<lambda>x. distance (snd (find_candidates seven_seeded seven_010))
                          (argmedoid seven_01) (argmedoid x) \<le> radius x + 4 * 3)
              [seven_root, seven_0, seven_01]))
   \<and> path_radius (radius seven_root) [seven_01, seven_010] = 2
   \<and> candidates (snd (find_candidates seven_seeded seven_010)) (name seven_010)
       = Some (map (\<lambda>x. (x, distance (snd (find_candidates seven_seeded seven_010))
                                (argmedoid seven_010) (argmedoid x)))
           (filter (\<lambda>x. distance (snd (find_candidates seven_seeded seven_010))
                          (argmedoid seven_010) (argmedoid x) \<le> radius x + 4 * 2)
              (working_set [(seven_root, 1), (seven_0, 10), (seven_01, 0)] 1)))"
proof -
  let ?m' = "snd (find_candidates seven_seeded seven_010)"
  let ?anc = "[seven_root, seven_01, seven_010]"
  have anc: "ancestry seven_seeded (name seven_010) = Inr ?anc" by code_simp
  have d: "depth seven_root = 0" "depth seven_01 = 1" "depth seven_010 = 2" by code_simp+
  then have levels: "\<forall>i<length ?anc. depth (?anc ! i) = i" by (simp add: less_Suc_eq)
  have e: "fst (find_candidates seven_seeded seven_010) = None" by code_simp
  then have ok: "find_candidates seven_seeded seven_010 = (None, ?m')"
    by (cases "find_candidates seven_seeded seven_010") simp
  have fresh: "candidates seven_seeded (name seven_01) = None"
    "candidates seven_seeded (name seven_010) = None" by code_simp+
  have root: "candidates ?m' (name seven_root) = Some [(seven_root, 0)]" by code_simp
  have ws: "working_set [(seven_root, 0)] 0 = [seven_root, seven_0, seven_01]" by code_simp
  have pr: "path_radius (radius seven_root) [seven_01] = 3"
    "path_radius (radius seven_root) [seven_01, seven_010] = 2" by code_simp+
  have mr: "mroot ?m' = seven_root" by code_simp
  have c01: "candidates ?m' (name seven_01) = Some [(seven_root, 1), (seven_0, 10), (seven_01, 0)]"
    by code_simp
  note t = find_candidates_retains[OF anc levels ok]
  note t0 = t[THEN conjunct2, THEN conjunct2, rule_format, of 0]
  note t1 = t[THEN conjunct2, THEN conjunct2, rule_format, of 1]
  from t0 d(3) fresh(1) root ws pr(1) mr have j0: "candidates ?m' (name seven_01)
       = Some (map (\<lambda>x. (x, distance ?m' (argmedoid seven_01) (argmedoid x)))
           (filter (\<lambda>x. distance ?m' (argmedoid seven_01) (argmedoid x) \<le> radius x + 4 * 3)
              [seven_root, seven_0, seven_01]))"
    by simp
  from t1 d(3) fresh(2) c01 pr(2) mr have j1: "candidates ?m' (name seven_010)
       = Some (map (\<lambda>x. (x, distance ?m' (argmedoid seven_010) (argmedoid x)))
           (filter (\<lambda>x. distance ?m' (argmedoid seven_010) (argmedoid x) \<le> radius x + 4 * 2)
              (working_set [(seven_root, 1), (seven_0, 10), (seven_01, 0)] 1)))"
    by simp
  from anc d e fresh root ws pr c01 j0 j1 show ?thesis by simp
qed

section \<open>Facts about building edges\<close>


lemma subtree_self: "c \<in> set (subtree c)"
  by (cases c) simp

lemma subtree_trans: "y \<in> set (subtree x) \<Longrightarrow> x \<in> set (subtree r) \<Longrightarrow> y \<in> set (subtree r)"
proof (induction r arbitrary: x y rule: subtree.induct)
  case (1 nm pts ch smp med far rad)
  show ?case
  proof (cases "x = Cluster nm pts ch smp med far rad")
    case True
    with 1(2) show ?thesis by simp
  next
    case False
    with 1(3) obtain cs c where ch: "ch = Some cs" "c \<in> set cs" "x \<in> set (subtree c)"
      by (auto split: option.splits)
    from 1(1)[OF ch(1) ch(2) 1(2) ch(3)] have "y \<in> set (subtree c)" .
    with ch show ?thesis by auto
  qed
qed

lemma subtree_children: "c \<in> set (subtree r) \<Longrightarrow> ch \<in> set (children_of c) \<Longrightarrow> ch \<in> set (subtree r)"
proof -
  assume c: "c \<in> set (subtree r)" and ch: "ch \<in> set (children_of c)"
  have "ch \<in> set (subtree c)" using ch subtree_self[of ch]
    by (cases c) (auto simp: children_of_def split: option.splits)
  then show ?thesis using c by (rule subtree_trans)
qed

lemma unique_names_iff:
  "unique_names m \<longleftrightarrow>
     (\<forall>x\<in>set (subtree (mroot m)). \<forall>y\<in>set (subtree (mroot m)). name x = name y \<longrightarrow> x = y)"
  by (auto simp: unique_names_def list_all_iff)

text \<open>
  On the clusters of one tree the equality of the source, \<open>cluster_eq\<close>, is equality.
\<close>

lemma cluster_eq_tree:
  assumes "unique_names m" "a \<in> set (subtree (mroot m))" "b \<in> set (subtree (mroot m))"
  shows "cluster_eq a b \<longleftrightarrow> a = b"
  using assms unfolding unique_names_iff cluster_eq_def by blast

lemma candidates_sound_iff:
  "candidates_sound m \<longleftrightarrow>
     (\<forall>t\<in>set (subtree (mroot m)). \<forall>cs. candidates m (name t) = Some cs \<longrightarrow>
        (\<forall>(x, d)\<in>set cs. x \<in> set (subtree (mroot m)) \<and> d = distance m (argmedoid t) (argmedoid x)))"
  by (auto simp: candidates_sound_def list_all_iff split: option.splits)

lemma lineage_loop_subtree:
  "set lineage \<subseteq> set (subtree r) \<Longrightarrow> lineage \<noteq> [] \<Longrightarrow> set (lineage_loop lineage names) \<subseteq> set (subtree r)"
proof (induction lineage names rule: lineage_loop.induct)
  case (1 lineage)
  then show ?case by simp
next
  case (2 lineage ancestor rest)
  show ?case
  proof (cases "has_children (last lineage)")
    case False
    with 2(3) show ?thesis by simp
  next
    case True
    show ?thesis
    proof (cases "find (\<lambda>child. name child = ancestor) (children_of (last lineage))")
      case None
      from 2(1)[OF True None 2(3) 2(4)] True None show ?thesis by simp
    next
      case (Some child)
      then have "child \<in> set (children_of (last lineage))"
        by (auto simp: find_Some_iff)
      moreover have "last lineage \<in> set (subtree r)" using 2(3,4) by auto
      ultimately have "child \<in> set (subtree r)" by (rule subtree_children[rotated])
      with 2(3) have "set (lineage @ [child]) \<subseteq> set (subtree r)" by simp
      from 2(2)[OF True Some this] True Some show ?thesis by simp
    qed
  qed
qed

lemma ancestry_subtree:
  assumes "ancestry m nm = Inr anc"
  shows "set anc \<subseteq> set (subtree (mroot m))"
proof -
  have l: "set (lineage_loop [mroot m] names) \<subseteq> set (subtree (mroot m))" for names
    by (rule lineage_loop_subtree) (simp_all add: subtree_self)
  show ?thesis
  proof (cases "0 < length nm")
    case True
    with assms have "anc = lineage_loop [mroot m] (ancestor_names [] (tl (split_on CHR ''0'' nm)))"
      by (simp add: ancestry_def Let_def split: if_splits)
    with l show ?thesis by simp
  next
    case False
    with assms have "anc = [mroot m]"
      by (simp add: ancestry_def Let_def split: if_splits)
    then show ?thesis by (simp add: subtree_self)
  qed
qed

lemma working_set_subtree:
  assumes "\<forall>(x, d)\<in>set pc. x \<in> set (subtree r)"
  shows "set (working_set pc dp) \<subseteq> set (subtree r)"
  using assms subtree_children[of _ r] by (auto simp: working_set_set) 



lemma distance_candidates_update [simp]:
  "distance (m\<lparr>candidates := cs\<rparr>) = distance m"
  by (simp add: distance_def fun_eq_iff)

lemma new_candidates_eq:
  "(if 0 < length (working_set pc dp)
    then dict_of (filter (\<lambda>(c, d). d \<le> radius c + rad * 4)
           (zip (working_set pc dp) (map f (working_set pc dp))))
    else []) = map (\<lambda>x. (x, f x)) (filter (\<lambda>x. f x \<le> radius x + rad * 4) (working_set pc dp))"
  using retained_eq[where keys = "working_set pc dp" and rad = rad and f = f, OF working_set_distinct]
  by auto

lemma sound_update:
  assumes sound: "candidates_sound m" and uniq: "unique_names m"
    and child: "child \<in> set (subtree (mroot m))"
    and parent: "parent \<in> set (subtree (mroot m))" "candidates m (name parent) = Some pc"
  shows "candidates_sound (m\<lparr>candidates := (candidates m)(name child \<mapsto>
           map (\<lambda>x. (x, distance m (argmedoid child) (argmedoid x)))
             (filter P (working_set pc dp)))\<rparr>)"
proof -
  from sound parent have pc: "\<forall>(x, d)\<in>set pc. x \<in> set (subtree (mroot m))"
    unfolding candidates_sound_iff by blast
  from working_set_subtree[OF pc] have ws: "set (working_set pc dp) \<subseteq> set (subtree (mroot m))" .
  let ?m' = "m\<lparr>candidates := (candidates m)(name child \<mapsto>
           map (\<lambda>x. (x, distance m (argmedoid child) (argmedoid x)))
             (filter P (working_set pc dp)))\<rparr>"
  have "\<forall>(x, d)\<in>set cs. x \<in> set (subtree (mroot ?m')) \<and> d = distance ?m' (argmedoid t) (argmedoid x)"
    if t: "t \<in> set (subtree (mroot ?m'))" and cs: "candidates ?m' (name t) = Some cs" for t cs
  proof (cases "name t = name child")
    case True
    from t have t': "t \<in> set (subtree (mroot m))" by simp
    with uniq True child have "t = child" unfolding unique_names_iff by blast
    with cs ws show ?thesis by auto
  next
    case False
    from t have t': "t \<in> set (subtree (mroot m))" by simp
    from False cs have "candidates m (name t) = Some cs" by simp
    with sound t' show ?thesis unfolding candidates_sound_iff by auto
  qed
  then show ?thesis unfolding candidates_sound_iff by blast
qed

lemma find_candidates_loop_sound:
  "candidates_sound m \<Longrightarrow> unique_names m \<Longrightarrow> set anc \<subseteq> set (subtree (mroot m)) \<Longrightarrow>
   find_candidates_loop m anc dps rad = (e, m') \<Longrightarrow> candidates_sound m'"
proof (induction m anc dps rad arbitrary: e m' rule: find_candidates_loop.induct)
  case (1 m anc rad)
  then show ?case by simp
next
  case (2 m anc dp dps rad)
  note sound = 2(3) and uniq = 2(4) and sub = 2(5) and run0 = 2(6)
  show ?case
  proof (cases "length anc \<le> Suc dp")
    case True
    with run0 sound show ?thesis by simp
  next
    case False
    let ?child = "anc ! Suc dp"
    let ?rad = "if 0 < radius ?child then radius ?child else rad"
    show ?thesis
    proof (cases "candidates m (name ?child)")
      case (Some cs)
      with run0 False have "find_candidates_loop m anc dps ?rad = (e, m')" by (simp add: Let_def)
      from 2(2)[OF False refl refl refl Some sound uniq sub this] show ?thesis .
    next
      case None
      show ?thesis
      proof (cases "candidates m (name (anc ! dp))")
        case n2: None
        with run0 False None sound show ?thesis by (simp add: Let_def)
      next
        case (Some pc)
        show ?thesis
        proof (cases "list_ex (\<lambda>(c, d). children c = None) pc")
          case True
          with run0 False None Some sound show ?thesis by (simp add: Let_def)
        next
          case nex: False
          let ?keys = "working_set pc dp"
          let ?f = "\<lambda>c. distance m (argmedoid ?child) (argmedoid c)"
          let ?distances = "map ?f ?keys"
          let ?new = "if 0 < length ?keys
                then dict_of (filter (\<lambda>(c, d). d \<le> radius c + ?rad * 4) (zip ?keys ?distances))
                else []"
          let ?m1 = "m\<lparr>candidates := (candidates m)(name ?child \<mapsto> ?new)\<rparr>"
          from run0 False None Some nex have run: "find_candidates_loop ?m1 anc dps ?rad = (e, m')"
            by (simp add: Let_def)
          have ch: "?child \<in> set (subtree (mroot m))" and pa: "anc ! dp \<in> set (subtree (mroot m))"
            using sub False by (auto simp: subset_iff)
          have s1: "candidates_sound ?m1"
            unfolding new_candidates_eq by (rule sound_update[OF sound uniq ch pa Some])
          have u1: "unique_names ?m1" using uniq by (simp add: unique_names_def)
          have sub1: "set anc \<subseteq> set (subtree (mroot ?m1))" using sub by simp
          from 2(1)[OF False refl refl refl None Some nex refl refl refl s1 u1 sub1 run]
          show ?thesis .
        qed
      qed
    qed
  qed
qed

lemma find_candidates_sound:
  assumes "candidates_sound m" "unique_names m" "find_candidates m c = (e, m')"
  shows "candidates_sound m'"
proof (cases "ancestry m (name c)")
  case (Inl err)
  with assms show ?thesis by (simp add: find_candidates_def)
next
  case (Inr anc)
  with assms(3) have "find_candidates_loop m anc [0..<depth c] (radius (mroot m)) = (e, m')"
    by (simp add: find_candidates_def)
  from find_candidates_loop_sound[OF assms(1,2) ancestry_subtree[OF Inr] this] show ?thesis .
qed

lemma find_candidates_frame:
  assumes "find_candidates m c = (e, m')"
  shows "data m' = data m \<and> metric m' = metric m \<and> mroot m' = mroot m \<and> layers m' = layers m
     \<and> mgraph m' = mgraph m"
proof (cases "ancestry m (name c)")
  case (Inl err)
  with assms show ?thesis by (simp add: find_candidates_def)
next
  case (Inr anc)
  with assms have "find_candidates_loop m anc [0..<depth c] (radius (mroot m)) = (e, m')"
    by (simp add: find_candidates_def)
  from find_candidates_loop_frame[OF this] show ?thesis by simp
qed



lemma good_edges_iff:
  "good_edges cs c es \<longleftrightarrow>
     (\<forall>x d p. (x, d, p) \<in> set es \<longrightarrow> x \<in> set cs \<and> p = None \<and> d \<le> radius c + radius x \<and> (x = c \<longrightarrow> d = 0))"
  by (auto simp: good_edges_def list_all_iff)

lemma dict_set_keys_same: "k \<in> fst ` set d \<Longrightarrow> map fst (dict_set k v d) = map fst d"
  by (induction d) (auto simp: rev_image_eqI)

lemma medoids_at_zero_iff:
  "medoids_at_zero m \<longleftrightarrow> (\<forall>c\<in>set (subtree (mroot m)). distance m (argmedoid c) (argmedoid c) = 0)"
  by (simp add: medoids_at_zero_def list_all_iff)

lemma graph_of_tree_iff:
  "graph_of_tree m g \<longleftrightarrow> set (clusters g) \<subseteq> set (subtree (mroot m))"
  by (auto simp: graph_of_tree_def list_all_iff)

lemma same_world_refl [simp]: "same_world m m"
  by (simp add: same_world_def)

lemma same_world_trans: "same_world a b \<Longrightarrow> same_world b c \<Longrightarrow> same_world a c"
  by (simp add: same_world_def)

lemma same_world_preds:
  assumes "same_world m m'"
  shows "unique_names m' = unique_names m" "medoids_at_zero m' = medoids_at_zero m"
    "graph_of_tree m' g = graph_of_tree m g" "distance m' = distance m"
  using assms by (simp_all add: same_world_def unique_names_def medoids_at_zero_def
      graph_of_tree_def distance_def fun_eq_iff)

lemma find_neighbors_step:
  assumes run: "find_neighbors m g c = (None, m', g')"
    and c: "c \<in> set (clusters g)" "c \<in> set (subtree (mroot m))"
    and sound: "candidates_sound m" and uniq: "unique_names m" and zero: "medoids_at_zero m"
  shows "\<exists>es. edges g' = dict_set c (Some es) (edges g) \<and> good_edges (clusters g) c es
     \<and> g' = g\<lparr>edges := edges g'\<rparr> \<and> same_world m m' \<and> candidates_sound m'"
proof -
  obtain e1 m1 where fc: "(if candidates m (name c) = None then find_candidates m c else (None, m)) = (e1, m1)"
    by (cases "if candidates m (name c) = None then find_candidates m c else (None, m)")
  with run have e1: "e1 = None" by (cases e1) (auto simp: find_neighbors_def)
  have sw: "same_world m m1" and s1: "candidates_sound m1"
    using fc find_candidates_frame[of m c e1 m1] find_candidates_sound[OF sound uniq, of c e1 m1] sound
    by (auto simp: same_world_def split: if_splits)
  from run fc e1 obtain cs where cs: "candidates m1 (name c) = Some cs" and m': "m' = m1"
    and g': "g' = g\<lparr>edges := dict_set c
                  (Some (map (\<lambda>(x, d). (x, d, None))
                     (filter (\<lambda>(x, d). x \<in> set (clusters g) \<and> d \<le> radius c + radius x) cs)))
                  (edges g)\<rparr>"
    by (cases "candidates m1 (name c)") (auto simp: find_neighbors_def)
  let ?es = "map (\<lambda>(x, d). (x, d, None))
                     (filter (\<lambda>(x, d). x \<in> set (clusters g) \<and> d \<le> radius c + radius x) cs)"
  have c1: "c \<in> set (subtree (mroot m1))" using c(2) sw by (simp add: same_world_def)
  have z1: "distance m1 (argmedoid c) (argmedoid c) = 0"
    using zero c(2) same_world_preds(4)[OF sw] unfolding medoids_at_zero_iff by simp
  from s1 c1 cs have "\<forall>(x, d)\<in>set cs. d = distance m1 (argmedoid c) (argmedoid x)"
    unfolding candidates_sound_iff by blast
  with z1 have "good_edges (clusters g) c ?es"
    unfolding good_edges_iff by auto
  with g' m' sw s1 show ?thesis by (intro exI[of _ ?es]) simp
qed

lemma find_neighbors_all_result:
  "find_neighbors_all m g cs = (None, m', g') \<Longrightarrow>
   set cs \<subseteq> set (clusters g) \<Longrightarrow> set cs \<subseteq> set (subtree (mroot m)) \<Longrightarrow>
   candidates_sound m \<Longrightarrow> unique_names m \<Longrightarrow> medoids_at_zero m \<Longrightarrow>
   clusters g' = clusters g \<and> g' = g\<lparr>edges := edges g'\<rparr> \<and> same_world m m' \<and> candidates_sound m'
   \<and> (\<forall>c\<in>set cs. \<exists>es. map_of (edges g') c = Some (Some es) \<and> good_edges (clusters g) c es)
   \<and> (\<forall>c. c \<notin> set cs \<longrightarrow> map_of (edges g') c = map_of (edges g) c)"
proof (induction cs arbitrary: m g)
  case Nil
  then show ?case by simp
next
  case (Cons c cs)
  obtain e1 m1 g1 where st: "find_neighbors m g c = (e1, m1, g1)"
    by (cases "find_neighbors m g c")
  with Cons.prems(1) have e1: "e1 = None" by (cases e1) auto
  from st e1 Cons.prems(1) have rest: "find_neighbors_all m1 g1 cs = (None, m', g')" by simp
  from find_neighbors_step[OF st[unfolded e1] _ _ Cons.prems(4,5,6)] Cons.prems(2,3)
  obtain es where es: "edges g1 = dict_set c (Some es) (edges g)" "good_edges (clusters g) c es"
    "g1 = g\<lparr>edges := edges g1\<rparr>" "same_world m m1" "candidates_sound m1" by auto
  have cl1: "clusters g1 = clusters g"
    using es(1) Cons.prems(2) by (simp add: clusters_def dict_set_keys_same)
  have mo1: "map_of (edges g1) = (map_of (edges g))(c \<mapsto> Some es)"
    using es(1) by (simp add: map_of_dict_set)
  have "clusters g' = clusters g1 \<and> g' = g1\<lparr>edges := edges g'\<rparr> \<and> same_world m1 m' \<and> candidates_sound m'
   \<and> (\<forall>c\<in>set cs. \<exists>es. map_of (edges g') c = Some (Some es) \<and> good_edges (clusters g1) c es)
   \<and> (\<forall>c. c \<notin> set cs \<longrightarrow> map_of (edges g') c = map_of (edges g1) c)"
    apply (rule Cons.IH[OF rest])
    using Cons.prems es cl1 same_world_preds[OF es(4)] by (auto simp: same_world_def)
  then have IH: "clusters g' = clusters g1" "g' = g1\<lparr>edges := edges g'\<rparr>" "same_world m1 m'" "candidates_sound m'"
    "\<forall>c\<in>set cs. \<exists>es. map_of (edges g') c = Some (Some es) \<and> good_edges (clusters g1) c es"
    "\<forall>c. c \<notin> set cs \<longrightarrow> map_of (edges g') c = map_of (edges g1) c" by auto
  have head: "\<exists>es. map_of (edges g') c = Some (Some es) \<and> good_edges (clusters g) c es"
  proof (cases "c \<in> set cs")
    case True
    with IH(5) cl1 show ?thesis by auto
  next
    case False
    with IH(6) mo1 es(2) show ?thesis by auto
  qed
  have g'eq: "g' = g\<lparr>edges := edges g'\<rparr>"
    using IH(2) es(3) by (metis graph.surjective graph.update_convs(1))
  show ?case
    using IH cl1 head mo1 g'eq same_world_trans[OF es(4) IH(3)] by auto
qed



lemma edge_rel_iff: "(a, b, d, p) \<in> edge_rel E \<longleftrightarrow> (\<exists>es. map_of E a = Some (Some es) \<and> (b, d, p) \<in> set es)"
  by (simp add: edge_rel_def)

lemma edges_of_rel: "(b, d, p) \<in> set (edges_of g a) \<longleftrightarrow> (a, b, d, p) \<in> edge_rel (edges g)"
  by (cases "map_of (edges g) a"; cases "the (map_of (edges g) a)") (auto simp: edges_of_def edge_rel_def)

lemma set_add_set [simp]: "set (set_add x xs) = insert x (set xs)"
  by (auto simp: set_add_def)

lemma edge_rel_add:
  assumes "map_of E n = Some (Some ns)"
  shows "edge_rel (dict_set n (Some (set_add (c, d, None) ns)) E) = insert (n, c, d, None) (edge_rel E)"
  using assms by (auto simp: edge_rel_def map_of_dict_set split: if_splits)

lemma built_like_refl [simp]: "built_like E E"
  by (simp add: built_like_def)

lemma built_like_trans: "built_like A B \<Longrightarrow> built_like B C \<Longrightarrow> built_like A C"
  by (simp add: built_like_def)

lemma built_like_dict_set:
  assumes "map_of E n = Some (Some ns)"
  shows "built_like E (dict_set n (Some ns') E)"
proof -
  from assms have "n \<in> fst ` set E" by (metis map_of_eq_None_iff option.distinct(1))
  then have "map fst (dict_set n (Some ns') E) = map fst E" by (rule dict_set_keys_same)
  with assms show ?thesis by (auto simp: built_like_def map_of_dict_set)
qed

lemma add_reverse_edges_rel:
  "add_reverse_edges c es E = (None, E') \<Longrightarrow>
   built_like E E' \<and> edge_rel E' = edge_rel E \<union> {(n, c, d, None) | n d p. (n, d, p) \<in> set es}"
proof (induction es arbitrary: E)
  case Nil
  then show ?case by simp
next
  case (Cons e es)
  obtain n d p where e: "e = (n, d, p)" by (cases e)
  from Cons.prems e obtain ns where ns: "map_of E n = Some (Some ns)"
    by (cases "map_of E n"; cases "the (map_of E n)") auto
  let ?E1 = "dict_set n (Some (set_add (c, d, None) ns)) E"
  from Cons.prems e ns have "add_reverse_edges c es ?E1 = (None, E')" by simp
  from Cons.IH[OF this] have IH: "built_like ?E1 E'"
    "edge_rel E' = edge_rel ?E1 \<union> {(n, c, d, None) | n d p. (n, d, p) \<in> set es}" by auto
  have "built_like E E'" using built_like_trans[OF built_like_dict_set[OF ns] IH(1)] .
  moreover have "edge_rel E' = edge_rel E \<union> {(n, c, d, None) | n d p. (n, d, p) \<in> set (e # es)}"
    unfolding IH(2) edge_rel_add[OF ns] e by auto
  ultimately show ?case by simp
qed

lemma handshake_rel:
  "handshake cs E = (None, E') \<Longrightarrow> edge_rel E \<subseteq> S \<Longrightarrow>
   (\<forall>a b d p. (a, b, d, p) \<in> S \<longrightarrow> (b, a, d, None) \<in> S) \<Longrightarrow>
   built_like E E' \<and> edge_rel E \<subseteq> edge_rel E' \<and> edge_rel E' \<subseteq> S
   \<and> (\<forall>c\<in>set cs. \<forall>b d p. (c, b, d, p) \<in> edge_rel E \<longrightarrow> (b, c, d, None) \<in> edge_rel E')"
proof (induction cs arbitrary: E)
  case Nil
  then show ?case by simp
next
  case (Cons c cs)
  from Cons.prems(1) obtain es where es: "map_of E c = Some (Some es)"
    by (cases "map_of E c"; cases "the (map_of E c)") auto
  obtain e1 E1 where st: "add_reverse_edges c es E = (e1, E1)" by (cases "add_reverse_edges c es E")
  with Cons.prems(1) es have e1: "e1 = None" by (cases e1) auto
  from st e1 es Cons.prems(1) have rest: "handshake cs E1 = (None, E')" by simp
  from add_reverse_edges_rel[OF st[unfolded e1]] have s1: "built_like E E1"
    "edge_rel E1 = edge_rel E \<union> {(n, c, d, None) | n d p. (n, d, p) \<in> set es}" by auto
  have own: "(n, d, p) \<in> set es \<longleftrightarrow> (c, n, d, p) \<in> edge_rel E" for n d p
    using es by (simp add: edge_rel_def)
  have sub1: "edge_rel E1 \<subseteq> S"
    unfolding s1(2) using Cons.prems(2,3) own by blast
  from Cons.IH[OF rest sub1 Cons.prems(3)] have IH: "built_like E1 E'" "edge_rel E1 \<subseteq> edge_rel E'"
    "edge_rel E' \<subseteq> S"
    "\<forall>c\<in>set cs. \<forall>b d p. (c, b, d, p) \<in> edge_rel E1 \<longrightarrow> (b, c, d, None) \<in> edge_rel E'" by auto
  have mono: "edge_rel E \<subseteq> edge_rel E1" unfolding s1(2) by blast
  have head: "(b, c, d, None) \<in> edge_rel E'" if "(c, b, d, p) \<in> edge_rel E" for b d p
  proof -
    from that own have "(b, c, d, None) \<in> edge_rel E1" unfolding s1(2) by blast
    with IH(2) show ?thesis by blast
  qed
  have tail: "(b, c', d, None) \<in> edge_rel E'" if "c' \<in> set cs" "(c', b, d, p) \<in> edge_rel E" for c' b d p
    using IH(4) mono that by blast
  have all: "\<forall>c'\<in>set (c # cs). \<forall>b d p. (c', b, d, p) \<in> edge_rel E \<longrightarrow> (b, c', d, None) \<in> edge_rel E'"
    using head tail by auto
  have "edge_rel E \<subseteq> edge_rel E'" using mono IH(2) by blast
  with built_like_trans[OF s1(1) IH(1)] IH(3) all show ?case by blast
qed



lemma edge_rel_remove:
  assumes "map_of E c = Some (Some es)"
  shows "edge_rel (dict_set c (Some (removeAll x es)) E) = edge_rel E - {(c, x)}"
  using assms by (auto simp: edge_rel_def map_of_dict_set split: if_splits)

lemma remove_self_edges_rel:
  "remove_self_edges cs E = (None, E') \<Longrightarrow>
   built_like E E' \<and> edge_rel E' = edge_rel E - {(c, c, 0, None) | c. c \<in> set cs}"
proof (induction cs arbitrary: E)
  case Nil
  then show ?case by simp
next
  case (Cons c cs)
  from Cons.prems(1) obtain es where es: "map_of E c = Some (Some es)"
    by (cases "map_of E c"; cases "the (map_of E c)") auto
  let ?E1 = "if (c, 0, None) \<in> set es then dict_set c (Some (removeAll (c, 0, None) es)) E else E"
  from Cons.prems es have rest: "remove_self_edges cs ?E1 = (None, E')" by simp
  from Cons.IH[OF rest] have IH: "built_like ?E1 E'"
    "edge_rel E' = edge_rel ?E1 - {(c, c, 0, None) | c. c \<in> set cs}" by auto
  have b1: "built_like E ?E1" using built_like_dict_set[OF es] by simp
  have r1: "edge_rel ?E1 = edge_rel E - {(c, c, 0, None)}"
  proof (cases "(c, 0, None) \<in> set es")
    case True
    then show ?thesis using edge_rel_remove[OF es] by simp
  next
    case False
    with es have "(c, c, 0, None) \<notin> edge_rel E" by (simp add: edge_rel_def)
    with False show ?thesis by simp
  qed
  have "edge_rel E' = edge_rel E - {(c', c', 0, None) | c'. c' \<in> set (c # cs)}"
    unfolding IH(2) r1 by auto
  with built_like_trans[OF b1 IH(1)] show ?case by simp
qed

lemma first_phases:
  assumes fn: "find_neighbors_all m g (clusters g) = (None, m1, g1)"
    and hs: "handshake (clusters g1) (edges g1) = (None, E2)"
    and rs: "remove_self_edges (clusters g1) E2 = (None, E3)"
    and sound: "candidates_sound m" and uniq: "unique_names m" and zero: "medoids_at_zero m"
    and tree: "graph_of_tree m g"
  shows "map fst E3 = clusters g \<and> edges_ok E3 \<and> g1 = g\<lparr>edges := edges g1\<rparr>
     \<and> same_world m m1 \<and> candidates_sound m1"
proof -
  let ?K = "set (clusters g)"
  from tree have sub: "?K \<subseteq> set (subtree (mroot m))" by (simp add: graph_of_tree_iff)
  from find_neighbors_all_result[OF fn subset_refl sub sound uniq zero]
  have r1: "clusters g1 = clusters g" "g1 = g\<lparr>edges := edges g1\<rparr>" "same_world m m1" "candidates_sound m1"
    "\<forall>c\<in>?K. \<exists>es. map_of (edges g1) c = Some (Some es) \<and> good_edges (clusters g) c es" by auto
  let ?S = "{(a, b, d, p). p = None \<and> a \<in> ?K \<and> b \<in> ?K \<and> d \<le> radius a + radius b \<and> (a = b \<longrightarrow> d = 0)}"
  let ?E1 = "edges g1"
  have keys1: "fst ` set ?E1 = ?K" using r1(1) unfolding clusters_def by (metis list.set_map)
  have src: "a \<in> ?K" if "(a, b, d, p) \<in> edge_rel ?E1" for a b d p
  proof -
    from that obtain es where "map_of ?E1 a = Some es" by (auto simp: edge_rel_def)
    then have "a \<in> fst ` set ?E1" by (metis map_of_eq_None_iff option.distinct(1))
    with keys1 show ?thesis by simp
  qed
  have good1: "edge_rel ?E1 \<subseteq> ?S"
  proof -
    have "(a, b, d, p) \<in> ?S" if h: "(a, b, d, p) \<in> edge_rel ?E1" for a b d p
    proof -
      from h obtain es where es: "map_of ?E1 a = Some (Some es)" "(b, d, p) \<in> set es"
        by (auto simp: edge_rel_def)
      from src[OF h] r1(5) es(1) have "good_edges (clusters g) a es" by auto
      with es(2) src[OF h] show ?thesis unfolding good_edges_iff by auto
    qed
    then show ?thesis by auto
  qed
  have symS: "\<forall>a b d p. (a, b, d, p) \<in> ?S \<longrightarrow> (b, a, d, None) \<in> ?S" by auto
  from handshake_rel[OF hs good1 symS] have h1: "built_like ?E1 E2" "edge_rel ?E1 \<subseteq> edge_rel E2"
    "edge_rel E2 \<subseteq> ?S"
    "\<forall>c\<in>set (clusters g1). \<forall>b d p. (c, b, d, p) \<in> edge_rel ?E1 \<longrightarrow> (b, c, d, None) \<in> edge_rel E2"
    by auto
  let ?T = "edge_rel ?E1 \<union> {(b, a, d, None) | a b d p. (a, b, d, p) \<in> edge_rel ?E1}"
  have none1: "p = None" if "(a, b, d, p) \<in> edge_rel ?E1" for a b d p using good1 that by auto
  have symT: "\<forall>a b d p. (a, b, d, p) \<in> ?T \<longrightarrow> (b, a, d, None) \<in> ?T"
    using none1 by blast
  from handshake_rel[OF hs _ symT] have h2: "edge_rel E2 \<subseteq> ?T" by blast
  have sym2: "(b, a, d, None) \<in> edge_rel E2" if h: "(a, b, d, p) \<in> edge_rel E2" for a b d p
  proof -
    from h h2 have "(a, b, d, p) \<in> ?T" by blast
    then show ?thesis
    proof
      assume e: "(a, b, d, p) \<in> edge_rel ?E1"
      from src[OF e] r1(1) h1(4) e show ?thesis by auto
    next
      assume "(a, b, d, p) \<in> {(b, a, d, None) | a b d p. (a, b, d, p) \<in> edge_rel ?E1}"
      then obtain p' where "(b, a, d, p') \<in> edge_rel ?E1" by blast
      with none1 h1(2) show ?thesis by blast
    qed
  qed
  from remove_self_edges_rel[OF rs] have h3: "built_like E2 E3"
    "edge_rel E3 = edge_rel E2 - {(c, c, 0, None) | c. c \<in> set (clusters g1)}" by auto
  have bl: "built_like ?E1 E3" using built_like_trans[OF h1(1) h3(1)] .
  then have keys3: "map fst E3 = clusters g" using r1(1) by (simp add: built_like_def clusters_def)
  have some3: "\<forall>c\<in>fst ` set E3. \<exists>es. map_of E3 c = Some (Some es)"
  proof
    fix c assume "c \<in> fst ` set E3"
    with keys3 have cK: "c \<in> ?K" unfolding clusters_def by (metis list.set_map)
    with r1(5) obtain es where "map_of ?E1 c = Some (Some es)" by blast
    with bl have "map_of E3 c \<noteq> None" "map_of E3 c \<noteq> Some None" by (auto simp: built_like_def)
    then show "\<exists>es. map_of E3 c = Some (Some es)" by (cases "map_of E3 c"; cases "the (map_of E3 c)") auto
  qed
  have K3: "fst ` set E3 = ?K" using keys3 unfolding clusters_def by (metis list.set_map)
  have rel3: "p = None \<and> a \<in> fst ` set E3 \<and> b \<in> fst ` set E3 \<and> a \<noteq> b
        \<and> d \<le> radius a + radius b \<and> (b, a, d, None) \<in> edge_rel E3"
    if h: "(a, b, d, p) \<in> edge_rel E3" for a b d p
  proof -
    from h h3(2) have e2: "(a, b, d, p) \<in> edge_rel E2" and ns: "(a, b, d, p) \<notin> {(c, c, 0, None) | c. c \<in> set (clusters g1)}"
      by auto
    from e2 h1(3) have g: "p = None" "a \<in> ?K" "b \<in> ?K" "d \<le> radius a + radius b" "a = b \<longrightarrow> d = 0" by auto
    from ns g r1(1) have ne: "a \<noteq> b" by auto
    from sym2[OF e2] ne h3(2) have "(b, a, d, None) \<in> edge_rel E3" by auto
    with g ne K3 show ?thesis by simp
  qed
  show ?thesis using keys3 some3 rel3 r1(2,3,4) unfolding edges_ok_def by blast
qed



lemma split_result:
  assumes "split_walkable_vs_subsumed g = (None, g')"
  shows "g' = g\<lparr>subsumed_clusters := Some (subsumed_of g), walkable_clusters := Some (walkable_of g),
            subsumed_edges := Some (map (\<lambda>c. (c, subsumed_edges_of g c)) (clusters g)),
            walkable_edges := Some (map (\<lambda>c. (c, walkable_edges_of g c)) (walkable_of g))\<rparr>
     \<and> clusters g \<noteq> []"
  using assms
  by (auto simp: split_walkable_vs_subsumed_def Let_def subsumed_of_def walkable_of_def
      subsumed_edges_of_def walkable_edges_of_def split: if_splits)



lemma edges_of_update [simp]:
  "edges_of (g\<lparr>subsumed_clusters := a\<rparr>) = edges_of g"
  "edges_of (g\<lparr>walkable_clusters := b\<rparr>) = edges_of g"
  "edges_of (g\<lparr>subsumed_edges := c\<rparr>) = edges_of g"
  "edges_of (g\<lparr>walkable_edges := d\<rparr>) = edges_of g"
  by (simp_all add: edges_of_def fun_eq_iff)

lemma clusters_update [simp]:
  "clusters (g\<lparr>subsumed_clusters := a\<rparr>) = clusters g"
  "clusters (g\<lparr>walkable_clusters := b\<rparr>) = clusters g"
  "clusters (g\<lparr>subsumed_edges := c\<rparr>) = clusters g"
  "clusters (g\<lparr>walkable_edges := d\<rparr>) = clusters g"
  by (simp_all add: clusters_def)

lemma derived_update [simp]:
  "subsumed_of (g\<lparr>subsumed_clusters := a\<rparr>) = subsumed_of g"
  "subsumed_of (g\<lparr>walkable_clusters := b\<rparr>) = subsumed_of g"
  "subsumed_of (g\<lparr>subsumed_edges := c\<rparr>) = subsumed_of g"
  "subsumed_of (g\<lparr>walkable_edges := d\<rparr>) = subsumed_of g"
  by (simp_all add: subsumed_of_def)

lemma derived_update2 [simp]:
  "walkable_of (g\<lparr>subsumed_clusters := a\<rparr>) = walkable_of g"
  "walkable_of (g\<lparr>walkable_clusters := b\<rparr>) = walkable_of g"
  "walkable_of (g\<lparr>subsumed_edges := c\<rparr>) = walkable_of g"
  "walkable_of (g\<lparr>walkable_edges := d\<rparr>) = walkable_of g"
  by (simp_all add: walkable_of_def)

lemma derived_update3 [simp]:
  "subsumed_edges_of (g\<lparr>subsumed_clusters := a\<rparr>) = subsumed_edges_of g"
  "subsumed_edges_of (g\<lparr>walkable_clusters := b\<rparr>) = subsumed_edges_of g"
  "subsumed_edges_of (g\<lparr>subsumed_edges := c\<rparr>) = subsumed_edges_of g"
  "subsumed_edges_of (g\<lparr>walkable_edges := d\<rparr>) = subsumed_edges_of g"
  "walkable_edges_of (g\<lparr>subsumed_clusters := a\<rparr>) = walkable_edges_of g"
  "walkable_edges_of (g\<lparr>walkable_clusters := b\<rparr>) = walkable_edges_of g"
  "walkable_edges_of (g\<lparr>subsumed_edges := c\<rparr>) = walkable_edges_of g"
  "walkable_edges_of (g\<lparr>walkable_edges := d\<rparr>) = walkable_edges_of g"
  by (simp_all add: subsumed_edges_of_def walkable_edges_of_def fun_eq_iff)

lemma build_edges_None:
  assumes "build_edges m g = (None, m', g')"
  shows "\<exists>g1 E2 E3 we'.
      find_neighbors_all m g (clusters g) = (None, m', g1)
    \<and> handshake (clusters g1) (edges g1) = (None, E2)
    \<and> remove_self_edges (clusters g1) E2 = (None, E3)
    \<and> edges g' = E3 \<and> clusters g' \<noteq> [] \<and> \<not> edges_missing g'
    \<and> subsumed_clusters g' = Some (subsumed_of g')
    \<and> walkable_clusters g' = Some (walkable_of g')
    \<and> subsumed_edges g' = Some (map (\<lambda>c. (c, subsumed_edges_of g' c)) (clusters g'))
    \<and> walkable_edges g' = Some we'
    \<and> recompute_loop (map (\<lambda>c. (c, walkable_edges_of g' c)) (walkable_of g')) = (None, we')"
proof -
  obtain e1 m1 g1 where p1: "find_neighbors_all m g (clusters g) = (e1, m1, g1)"
    by (cases "find_neighbors_all m g (clusters g)")
  with assms have e1: "e1 = None" by (cases e1) (auto simp: build_edges_def)
  obtain e2 E2 where p2: "handshake (clusters g1) (edges g1) = (e2, E2)"
    by (cases "handshake (clusters g1) (edges g1)")
  with assms p1 e1 have e2: "e2 = None" by (cases e2) (auto simp: build_edges_def)
  obtain e3 E3 where p3: "remove_self_edges (clusters g1) E2 = (e3, E3)"
    by (cases "remove_self_edges (clusters g1) E2")
  with assms p1 e1 p2 e2 have e3: "e3 = None" by (cases e3) (auto simp: build_edges_def)
  let ?g3 = "g1\<lparr>edges := E3\<rparr>"
  obtain e4 g4 where p4: "split_walkable_vs_subsumed ?g3 = (e4, g4)"
    by (cases "split_walkable_vs_subsumed ?g3")
  with assms p1 e1 p2 e2 p3 e3 have e4: "e4 = None" by (cases e4) (auto simp: build_edges_def)
  from split_result[OF p4[unfolded e4]] have g4: "g4 = ?g3\<lparr>subsumed_clusters := Some (subsumed_of ?g3),
            walkable_clusters := Some (walkable_of ?g3),
            subsumed_edges := Some (map (\<lambda>c. (c, subsumed_edges_of ?g3 c)) (clusters ?g3)),
            walkable_edges := Some (map (\<lambda>c. (c, walkable_edges_of ?g3 c)) (walkable_of ?g3))\<rparr>"
    and ne: "clusters ?g3 \<noteq> []" by auto
  from p4 e4 have nomiss: "\<not> list_ex (\<lambda>(c, es). es = None) (edges ?g3)"
    by (auto simp: split_walkable_vs_subsumed_def split: if_splits)
  from assms p1 e1 p2 e2 p3 e3 p4 e4 have p5: "recompute_transition_probabilities g4 = (None, g')" and m': "m' = m1"
    by (auto simp: build_edges_def split: prod.splits)
  obtain e5 we' where rl: "recompute_loop (map (\<lambda>c. (c, walkable_edges_of ?g3 c)) (walkable_of ?g3)) = (e5, we')"
    by (cases "recompute_loop (map (\<lambda>c. (c, walkable_edges_of ?g3 c)) (walkable_of ?g3))")
  from p5 g4 ne rl have e5: "e5 = None" and g': "g' = g4\<lparr>walkable_edges := Some we'\<rparr>"
    by (auto simp: recompute_transition_probabilities_def)
  have eg: "edges g' = E3" using g' g4 by simp
  have same: "edges_of g' = edges_of ?g3" "clusters g' = clusters ?g3"
    using eg by (simp_all add: edges_of_def clusters_def fun_eq_iff)
  have d: "subsumed_of g' = subsumed_of ?g3" "walkable_of g' = walkable_of ?g3"
    "subsumed_edges_of g' = subsumed_edges_of ?g3" "walkable_edges_of g' = walkable_edges_of ?g3"
    using same by (simp_all add: subsumed_of_def walkable_of_def subsumed_edges_of_def
        walkable_edges_of_def fun_eq_iff)
  show ?thesis
    apply (rule exI[of _ g1], rule exI[of _ E2], rule exI[of _ E3], rule exI[of _ we'])
    using p1 e1 m' p2 e2 p3 e3 eg ne nomiss rl e5 unfolding d same edges_missing_def
    by (simp add: g' g4)
qed

lemma seven_build_None: "fst (build_edges seven_seeded (mgraph seven_seeded)) = None"
  by code_simp

lemma seven_build_graph: "snd (snd (build_edges seven_seeded (mgraph seven_seeded))) = seven_graph"
  by code_simp

lemma seven_build: "build_edges seven_seeded (mgraph seven_seeded) = (None, seven_built, seven_graph)"
  using seven_build_None seven_build_graph
  by (cases "build_edges seven_seeded (mgraph seven_seeded)") (simp add: seven_built_def)

lemma seven_well_formed:
  "unique_names seven_seeded" "medoids_at_zero seven_seeded" "candidates_sound seven_seeded"
  "graph_of_tree seven_seeded (mgraph seven_seeded)"
  by code_simp+

lemma build_edges_ok:
  assumes run: "build_edges m g = (None, m', g')"
    and wf: "unique_names m" "medoids_at_zero m" "candidates_sound m" "graph_of_tree m g"
  shows "clusters g' = clusters g \<and> edges_ok (edges g') \<and> same_world m m' \<and> candidates_sound m'"
proof -
  from build_edges_None[OF run] obtain g1 E2 E3 where
    p: "find_neighbors_all m g (clusters g) = (None, m', g1)"
       "handshake (clusters g1) (edges g1) = (None, E2)"
       "remove_self_edges (clusters g1) E2 = (None, E3)" "edges g' = E3" by blast
  from first_phases[OF p(1,2,3) wf(3,1,2,4)] p(4) show ?thesis
    by (simp add: clusters_def)
qed

subsection \<open>C5: the edges built by build_edges\<close>

text \<open>Claim C5. After \<^const>\<open>build_edges\<close> has completed on a graph whose clusters belong to the
  tree of the manifold, the edge relation is symmetric (cluster \<open>b\<close> is a neighbour of \<open>a\<close> at
  distance \<open>d\<close> exactly when \<open>a\<close> is a neighbour of \<open>b\<close> at distance \<open>d\<close>), no cluster is its own
  neighbour, and every edge satisfies \<open>d \<le> radius a + radius b\<close>. The hypotheses say what a
  manifold built by the source provides: names identify the clusters of the tree, a point is at
  distance 0 from itself, and the candidates already stored carry the true distances.\<close>

theorem build_edges_symmetric:
  assumes run: "build_edges m g = (None, m', g')"
    and wf: "unique_names m" "medoids_at_zero m" "candidates_sound m" "graph_of_tree m g"
  shows "\<forall>a b d p. (b, d, p) \<in> set (edges_of g' a) \<longrightarrow>
           (a, d, p) \<in> set (edges_of g' b) \<and> a \<noteq> b \<and> d \<le> radius a + radius b"
proof -
  from build_edges_ok[OF run wf] have ok: "edges_ok (edges g')" by simp
  show ?thesis
  proof (intro allI impI)
    fix a b d p
    assume "(b, d, p) \<in> set (edges_of g' a)"
    then have "(a, b, d, p) \<in> edge_rel (edges g')" by (simp add: edges_of_rel)
    with ok have "p = None" "a \<noteq> b" "d \<le> radius a + radius b" "(b, a, d, None) \<in> edge_rel (edges g')"
      unfolding edges_ok_def by blast+
    then show "(a, d, p) \<in> set (edges_of g' b) \<and> a \<noteq> b \<and> d \<le> radius a + radius b"
      by (simp add: edges_of_rel)
  qed
qed

theorem build_edges_symmetric_witness:
  "build_edges seven_seeded (mgraph seven_seeded) = (None, seven_built, seven_graph)
   \<and> unique_names seven_seeded \<and> medoids_at_zero seven_seeded \<and> candidates_sound seven_seeded
   \<and> graph_of_tree seven_seeded (mgraph seven_seeded)
   \<and> (seven_0101, 4, None) \<in> set (edges_of seven_graph seven_010)
   \<and> (seven_010, 4, None) \<in> set (edges_of seven_graph seven_0101)
   \<and> seven_010 \<noteq> seven_0101 \<and> 4 \<le> radius seven_010 + radius seven_0101"
proof -
  have e: "(seven_0101, 4, None) \<in> set (edges_of seven_graph seven_010)"
    by code_simp
  from build_edges_symmetric[OF seven_build seven_well_formed] e
  have "(seven_010, 4, None) \<in> set (edges_of seven_graph seven_0101)
     \<and> seven_010 \<noteq> seven_0101 \<and> 4 \<le> radius seven_010 + radius seven_0101" by blast
  with e seven_build seven_well_formed show ?thesis by simp
qed

section \<open>Transition probabilities (C6)\<close>

lemma eight_build_None: "fst (build_edges eight_seeded (mgraph eight_seeded)) = None"
  by code_simp

lemma eight_build_graph: "snd (snd (build_edges eight_seeded (mgraph eight_seeded))) = eight_graph"
  by code_simp

lemma eight_build: "build_edges eight_seeded (mgraph eight_seeded) = (None, eight_built, eight_graph)"
  using eight_build_None eight_build_graph
  by (cases "build_edges eight_seeded (mgraph eight_seeded)") (simp add: eight_built_def)

lemma distinct_map_fst_pairs:
  assumes "distinct (map g (map f xs))" shows "distinct (map f xs)"
  using assms by (simp add: distinct_map inj_on_def comp_def) 

lemma transition_probabilities_None:
  assumes tp: "transition_probabilities es = (None, es')"
    and d: "distinct (map (\<lambda>(n, d, p). (n, d)) es)"
  shows "es' = map (\<lambda>(n, d, p). (n, d, Some (1 / (d * (\<Sum>(n, d, p)\<leftarrow>es. 1 / d))))) es"
    and "\<bar>(\<Sum>(n, d, p)\<leftarrow>es'. the p) - 1\<bar> \<le> 1 / 10 ^ 6"
    and "\<forall>(n, d, p)\<in>set es. d \<noteq> 0"
proof -
  define F where "F = (\<Sum>(n, d, p)\<leftarrow>es. 1 / d)"
  define f :: "edge \<Rightarrow> edge" where "f = (\<lambda>(n, d, p). (n, d, Some (1 / (d * F))))"
  have eq: "map (\<lambda>(n, d, p). (n, d)) (map f es) = map (\<lambda>(n, d, p). (n, d)) es"
    by (simp add: case_prod_unfold f_def)
  from d have "distinct (map (\<lambda>(n, d, p). (n, d)) (map f es))" by (simp only: eq)
  then have "distinct (map f es)" by (rule distinct_map_fst_pairs)
  then have r: "remdups (map f es) = map f es" by (rule distinct_remdups_id)
  have unf: "transition_probabilities es =
    (if list_ex (\<lambda>(n, d, p). d = 0) es then (Some ZeroDivisionError, es)
     else if list_ex (\<lambda>(n, d, p). d * F = 0) es then (Some ZeroDivisionError, es)
     else if \<bar>sum_list (map (\<lambda>(n, d, p). the p) (map f es)) - 1\<bar> \<le> 1 / 10 ^ 6
          then (None, map f es) else (Some AssertionError, map f es))"
    unfolding transition_probabilities_def Let_def F_def[symmetric] f_def[symmetric] r ..
  from tp have e: "es' = map f es" unfolding unf by (simp split: if_splits)
  then show "es' = map (\<lambda>(n, d, p). (n, d, Some (1 / (d * (\<Sum>(n, d, p)\<leftarrow>es. 1 / d))))) es"
    by (simp add: f_def F_def)
  from tp show "\<bar>(\<Sum>(n, d, p)\<leftarrow>es'. the p) - 1\<bar> \<le> 1 / 10 ^ 6"
    unfolding unf e by (simp split: if_splits)
  from tp have "\<not> list_ex (\<lambda>(n, d, p). d = 0) es" unfolding unf by (simp split: if_splits)
  then show "\<forall>(n, d, p)\<in>set es. d \<noteq> 0"
    by (simp add: list_ex_iff case_prod_unfold)
qed


lemma sum_list_divide_const:
  "(\<Sum>x\<leftarrow>xs. f x / (c :: real)) = (\<Sum>x\<leftarrow>xs. f x) / c"
  by (induction xs) (simp_all add: add_divide_distrib)

lemma transition_probabilities_sum:
  assumes tp: "transition_probabilities es = (None, es')"
    and d: "distinct (map (\<lambda>(n, d, p). (n, d)) es)"
    and ne: "es \<noteq> []"
  shows "(\<Sum>(n, d, p)\<leftarrow>es'. the p) = 1"
proof -
  let ?F = "\<Sum>(n, d, p)\<leftarrow>es. 1 / d"
  note r = transition_probabilities_None[OF tp d]
  from ne obtain n d p where "(n, d, p) \<in> set es" by (cases es) auto
  moreover from tp have "\<not> list_ex (\<lambda>(n, d, p). d * ?F = 0) es"
    by (auto simp: transition_probabilities_def Let_def split: if_splits)
  ultimately have F: "?F \<noteq> 0" by (auto simp: list_ex_iff)
  have "(\<Sum>(n, d, p)\<leftarrow>es'. the p) = (\<Sum>x\<leftarrow>es. (1 / fst (snd x)) / ?F)"
    unfolding r(1) by (simp add: case_prod_unfold comp_def divide_divide_eq_left)
  also have "\<dots> = (\<Sum>x\<leftarrow>es. 1 / fst (snd x)) / ?F" by (rule sum_list_divide_const)
  also have "(\<Sum>x\<leftarrow>es. 1 / fst (snd x)) = ?F" by (simp add: case_prod_unfold)
  finally show ?thesis using F by simp
qed



section \<open>Replacing clusters (C8)\<close>

lemma cluster_eq_key: "cluster_eq a b \<longleftrightarrow> cluster_key a = cluster_key b"
  by (simp add: cluster_eq_def cluster_key_def)

lemma is_in_key: "is_in c cs \<longleftrightarrow> cluster_key c \<in> cluster_key ` set cs"
  by (auto simp: is_in_def list_ex_iff cluster_eq_key)

lemma key_add_fresh: "\<not> is_in c ks \<Longrightarrow> key_add c ks = ks @ [c]"
  by (simp add: key_add_def is_in_def)

lemma fold_key_add_distinct:
  "distinct (map cluster_key (acc @ ks)) \<Longrightarrow> fold key_add ks acc = acc @ ks"
proof (induction ks arbitrary: acc)
  case Nil
  then show ?case by simp
next
  case (Cons c ks)
  from Cons.prems have "\<not> is_in c acc" by (auto simp: is_in_key)
  then have k: "key_add c acc = acc @ [c]" by (rule key_add_fresh)
  from Cons.prems have "distinct (map cluster_key ((acc @ [c]) @ ks))" by simp
  from Cons.IH[OF this] show ?case by (simp add: k)
qed

lemma clusters_Graph: "clusters (Graph cs) = fold key_add cs []"
  by (simp add: clusters_def Graph_def comp_def)

lemma clusters_Graph_distinct: "distinct (map cluster_key cs) \<Longrightarrow> clusters (Graph cs) = cs"
  using fold_key_add_distinct[of "[]" cs] by (simp add: clusters_Graph)













end
